theory Spec2Isabelle
  imports Main "HOL-Library.Multiset" "HOL-Library.Word"
begin

section \<open>Data model of the service worker\<close>

text \<open>
  The service worker keeps one module-level variable, \<open>fetchCache\<close>, and talks to the
  browser through \<open>chrome.alarms\<close> and \<open>chrome.action\<close>. Hosts are strings; the state
  holds the entries that \<open>fetchCache\<close> has of its own, by host. The payloads
  handed back by the Gerrit client (an account, the reviews of one host) are opaque to the
  worker; they are modelled as strings and lists of change identifiers.
\<close>

type_synonym host = string
type_synonym account = string
type_synonym reviews = "string list"
type_synonym label = string
type_synonym item = string
type_synonym icon = "(string \<times> string) list"

text \<open>
  Values that are thrown: \<open>browser.FetchError\<close> (a class with the fields \<open>message\<close> and
  \<open>is_login_error\<close>, not derived from \<open>Error\<close>), and the built-in errors, given by their
  \<open>name\<close> and \<open>message\<close>. Both are objects, hence truthy in \<open>if (cached.error)\<close>.
\<close>

datatype js_error = FetchError string bool | Error string string

fun message :: "js_error \<Rightarrow> string" where
  "message (FetchError m l) = m"
| "message (Error n m) = m"

text \<open>A function either returns a value or throws (an \<open>async\<close> function: resolves or rejects).\<close>

datatype 'a completion = Returned 'a | Threw js_error

text \<open>The second component of a cache entry: \<open>{reviews: reviews}\<close> or \<open>{error: error}\<close>.\<close>

datatype cached = Reviews reviews | Failed js_error

text \<open>What the worker does to the outside world, in the order it does it.\<close>

datatype event =
    GerritFetchAccount host
  | GerritFetchReviews host account
  | AlarmsClear string
  | AlarmsCreate string int
  | SetIcon icon
  | SetBadgeText string
  | SetTitle string
  | SetBadgeBackgroundColor string
  | Notify "reviews list" "(host \<times> js_error) list"
  | ConsoleError js_error

record state =
  fetchCache :: "host \<rightharpoonup> int \<times> cached"
  alarms :: "string \<rightharpoonup> int"
  trace :: "event list"

text \<open>The object \<open>fetchCls\<close> returns and \<open>update\<close> receives.\<close>

record wrapper =
  results :: "reviews list"
  errors :: "(host \<times> js_error) list"

text \<open>
  A callback that is suspended at an \<open>await\<close>: on \<open>gerrit.fetchAccount(host)\<close>, or, with the
  account it has obtained, on \<open>gerrit.fetchReviews(host, account)\<close>.
\<close>

datatype suspended = AwaitAccount host | AwaitReviews host account

text \<open>
  The arrays \<open>results\<close> and \<open>errors\<close> while the per-host callbacks run, together with the
  callbacks that are suspended, in the order they were started.
\<close>

record tasks = wrapper +
  awaiting :: "suspended list"

text \<open>
  The object given to \<open>browser.updateBadge\<close>; the function tests each property with \<open>in\<close>,
  so each may be absent.
\<close>

record badge_data =
  badge_icon :: "icon option"
  badge_text :: "string option"
  badge_title :: "string option"
  badge_color :: "string option"

text \<open>An entry of \<open>messages.BADGE_DATA\<close>: its icon, colour and \<open>formatTitle\<close> function.\<close>

record template =
  template_icon :: icon
  template_color :: string
  formatTitle :: "nat \<Rightarrow> string"

text \<open>
  \<open>messages.BADGE_DATA[attention]\<close> is \<open>undefined\<close> for a label that is no key of the table,
  \<open>null\<close> for a label configured without a badge, and a template otherwise.
\<close>

datatype badge_entry = NoEntry | NullEntry | Entry template

text \<open>
  The modules \<open>config.js\<close>, \<open>messages.js\<close>, \<open>gerrit.js\<close> and \<open>notifications.js\<close> are
  imported by the worker; their constants and functions are parameters of the model.
  The remaining fields describe one run: the clock, what each host answers, and the order
  in which the suspended callbacks settle.
\<close>

record env =
  NO_HOST_ALLOWED :: string
  REVIEW_CACHE_DURATION_IN_MILLISECONDS :: int
  REFRESH_DELAY_IN_MINUTES :: int
  SECTION_ORDERING :: "label list"
  BADGE_DATA :: "label \<Rightarrow> badge_entry"
  DEFAULT_BADGE_DATA :: badge_data
  getCategoryMap :: "reviews list \<Rightarrow> (label \<rightharpoonup> item list)"
  fetchAccount :: "host \<Rightarrow> js_error + account"
  fetchReviews :: "host \<Rightarrow> account \<Rightarrow> js_error + reviews"
  fetchAllowedInstances :: "js_error + host list"
  notify :: "reviews list \<Rightarrow> (host \<times> js_error) list \<Rightarrow> js_error option"
  now :: int
  settledAt :: "host \<Rightarrow> int"
  picks :: "nat list"

section \<open>fetchCls\<close>

text \<open>
  \<open>fetchCache\<close> is a plain object, created as \<open>{}\<close>. Reading a key it has no entry for
  gives \<open>undefined\<close>, unless the key is the name of a property that every object inherits
  from \<open>Object.prototype\<close>; then it gives that property, a function or the prototype
  itself.
\<close>

definition Object_prototype :: "string \<Rightarrow> bool" where
  "Object_prototype key =
     (key \<in> set [''constructor'', ''hasOwnProperty'', ''isPrototypeOf'',
                  ''propertyIsEnumerable'', ''toLocaleString'', ''toString'', ''valueOf'',
                  ''__proto__'', ''__defineGetter__'', ''__defineSetter__'',
                  ''__lookupGetter__'', ''__lookupSetter__''])"

text \<open>
  One call of \<open>fetchCls\<close> is followed from its start to its return; no second call runs in
  between. \<open>hosts.map(async (host) => ...)\<close> runs every callback up to its first \<open>await\<close>, in
  the order of \<open>hosts\<close>. A callback that finds a fresh cache entry pushes it and is done. A
  callback that finds an inherited property takes it for an entry: the property is truthy
  and not iterable, \<open>const [timestamp, cached] = fetchCache[host]\<close> throws a \<open>TypeError\<close>
  outside the \<open>try\<close>, the callback is rejected, and \<open>Promise.allSettled\<close> takes the rejection
  without a word. Any other callback calls \<open>gerrit.fetchAccount(host)\<close> and is suspended.
\<close>

definition start :: "env \<Rightarrow> host \<Rightarrow> tasks \<times> state \<Rightarrow> tasks \<times> state" where
  "start e host = (\<lambda>(t, s).
     let fetch = (t\<lparr>awaiting := awaiting t @ [AwaitAccount host]\<rparr>,
                  s\<lparr>trace := trace s @ [GerritFetchAccount host]\<rparr>)
     in case fetchCache s host of
          None \<Rightarrow> if Object_prototype host then (t, s) else fetch
        | Some (timestamp, cached) \<Rightarrow>
            if now e - timestamp < REVIEW_CACHE_DURATION_IN_MILLISECONDS e then
              (case cached of
                 Failed error \<Rightarrow> (t\<lparr>errors := errors t @ [(host, error)]\<rparr>, s)
               | Reviews reviews \<Rightarrow> (t\<lparr>results := results t @ [reviews]\<rparr>, s))
            else fetch)"

text \<open>
  The \<open>catch\<close> block: the error is cached under the time of that moment and pushed on
  \<open>errors\<close>.
\<close>

definition catch_block :: "env \<Rightarrow> host \<Rightarrow> js_error \<Rightarrow> tasks \<times> state \<Rightarrow> tasks \<times> state" where
  "catch_block e host error = (\<lambda>(t, s).
     (t\<lparr>errors := errors t @ [(host, error)]\<rparr>,
      s\<lparr>fetchCache := (fetchCache s)(host \<mapsto> (settledAt e host, Failed error))\<rparr>))"

text \<open>
  A suspended callback is resumed when the request it waits for settles, and runs to its
  next \<open>await\<close> or to its end. After the account it requests the reviews and is suspended
  again; after the reviews it caches them under the time of that moment and pushes them on
  \<open>results\<close>; a request that fails takes it to the \<open>catch\<close> block. The first component of
  the result is the callback if it is suspended again.
\<close>

fun resume :: "env \<Rightarrow> suspended \<Rightarrow> tasks \<times> state \<Rightarrow> suspended option \<times> (tasks \<times> state)" where
  "resume e (AwaitAccount host) (t, s) =
     (case fetchAccount e host of
        Inl error \<Rightarrow> (None, catch_block e host error (t, s))
      | Inr account \<Rightarrow>
          (Some (AwaitReviews host account),
           (t, s\<lparr>trace := trace s @ [GerritFetchReviews host account]\<rparr>)))"
| "resume e (AwaitReviews host account) (t, s) =
     (case fetchReviews e host account of
        Inl error \<Rightarrow> (None, catch_block e host error (t, s))
      | Inr reviews \<Rightarrow>
          (None,
           (t\<lparr>results := results t @ [reviews]\<rparr>,
            s\<lparr>fetchCache := (fetchCache s)(host \<mapsto> (settledAt e host, Reviews reviews))\<rparr>)))"

text \<open>
  \<open>Promise.allSettled\<close>: the suspended callbacks are resumed, one at a time, in an order
  the worker does not control, until none is left. The order is read off \<open>picks\<close>: each
  number selects the callback to resume among those suspended; when the numbers run out
  the first one is resumed. Any choice can be made at any step, and every callback runs to
  its end.
\<close>

fun steps_left :: "suspended \<Rightarrow> nat" where
  "steps_left (AwaitAccount host) = 2"
| "steps_left (AwaitReviews host account) = 1"

function allSettled :: "env \<Rightarrow> nat list \<Rightarrow> suspended list \<Rightarrow> tasks \<times> state \<Rightarrow> tasks \<times> state" where
  "allSettled e ks [] ts = ts"
| "allSettled e ks (p # ps) ts =
     (let i = (case ks of [] \<Rightarrow> 0 | k # rest \<Rightarrow> k mod length (p # ps));
          r = resume e ((p # ps) ! i) ts
      in allSettled e (tl ks)
           (case fst r of
              None \<Rightarrow> take i (p # ps) @ drop (Suc i) (p # ps)
            | Some q \<Rightarrow> (p # ps)[i := q])
           (snd r))"
  by pat_completeness auto
termination
proof (relation "measure (\<lambda>(e, ks, ps, ts). sum_list (map steps_left ps))")
  show "wf (measure (\<lambda>(e, ks, ps, ts). sum_list (map steps_left ps)))"
    by simp
next
  fix e :: env and ks :: "nat list" and p :: suspended and ps :: "suspended list"
    and ts :: "tasks \<times> state" and i r
  assume i: "i = (case ks of [] \<Rightarrow> 0 | k # rest \<Rightarrow> k mod length (p # ps))"
    and r: "r = resume e ((p # ps) ! i) ts"
  let ?xs = "p # ps"
  let ?others = "take i ?xs @ drop (Suc i) ?xs"
  have less: "i < length ?xs"
    by (simp add: i split: list.splits)
  have whole: "sum_list (map steps_left ?xs)
      = steps_left (?xs ! i) + sum_list (map steps_left ?others)"
    using arg_cong [OF id_take_nth_drop [OF less], of "\<lambda>xs. sum_list (map steps_left xs)"]
    by simp
  have positive: "0 < steps_left q" for q
    by (cases q) simp_all
  have fewer: "steps_left q < steps_left (?xs ! i)" if "fst r = Some q" for q
    using that unfolding r
    by (cases "?xs ! i"; cases ts) (auto split: sum.splits)
  have updated: "sum_list (map steps_left (?xs[i := q]))
      = steps_left q + sum_list (map steps_left ?others)" for q
    using less by (simp add: upd_conv_take_nth_drop del: list_update.simps)
  show "((e, tl ks, case fst r of None \<Rightarrow> ?others | Some q \<Rightarrow> ?xs[i := q], snd r),
         e, ks, ?xs, ts) \<in> measure (\<lambda>(e, ks, ps, ts). sum_list (map steps_left ps))"
  proof (cases "fst r")
    case None
    then show ?thesis
      using whole positive [of "?xs ! i"] by simp
  next
    case (Some q)
    then show ?thesis
      using whole updated [of q] fewer [OF Some] by simp
  qed
qed

declare allSettled.simps [simp del]

text \<open>
  \<open>fetchCls\<close>: reject at once on an empty list; otherwise start all callbacks, wait until
  all of them have settled and return both arrays.
\<close>

definition fetchCls :: "env \<Rightarrow> host list \<Rightarrow> state \<Rightarrow> wrapper completion \<times> state" where
  "fetchCls e hosts s =
     (if length hosts = 0 then (Threw (Error ''Error'' (NO_HOST_ALLOWED e)), s)
      else
        let (t1, s1) = fold (start e) hosts (\<lparr>results = [], errors = [], awaiting = []\<rparr>, s);
            (t2, s2) = allSettled e (picks e) (awaiting t1) (t1, s1)
        in (Returned \<lparr>results = results t2, errors = errors t2\<rparr>, s2))"

section \<open>update\<close>

text \<open>\<open>String(count)\<close> for a count, which is a non-negative integer: its decimal digits.\<close>

definition digit :: "nat \<Rightarrow> char" where
  "digit d = ''0123456789'' ! d"

function decimal :: "nat \<Rightarrow> string" where
  "decimal n = (if n < 10 then [digit n] else decimal (n div 10) @ [digit (n mod 10)])"
  by pat_completeness auto
termination
  by (relation "measure id") auto

declare decimal.simps [simp del]

text \<open>
  \<open>chrome.alarms\<close> holds at most one alarm per name: \<open>create\<close> replaces an alarm of the same
  name, \<open>clear\<close> removes it.
\<close>

definition alarms_clear :: "string \<Rightarrow> state \<Rightarrow> state" where
  "alarms_clear name s =
     s\<lparr>alarms := (alarms s)(name := None), trace := trace s @ [AlarmsClear name]\<rparr>"

definition alarms_create :: "string \<Rightarrow> int \<Rightarrow> state \<Rightarrow> state" where
  "alarms_create name delayInMinutes s =
     s\<lparr>alarms := (alarms s)(name \<mapsto> delayInMinutes),
       trace := trace s @ [AlarmsCreate name delayInMinutes]\<rparr>"

text \<open>\<open>browser.updateBadge\<close> sets the properties that are present, in this order.\<close>

definition updateBadge :: "badge_data \<Rightarrow> state \<Rightarrow> state" where
  "updateBadge data s =
     s\<lparr>trace := trace s
          @ (case badge_icon data of None \<Rightarrow> [] | Some i \<Rightarrow> [SetIcon i])
          @ (case badge_text data of None \<Rightarrow> [] | Some t \<Rightarrow> [SetBadgeText t])
          @ (case badge_title data of None \<Rightarrow> [] | Some t \<Rightarrow> [SetTitle t])
          @ (case badge_color data of None \<Rightarrow> [] | Some c \<Rightarrow> [SetBadgeBackgroundColor c])\<rparr>"

text \<open>
  The callback given to \<open>messages.SECTION_ORDERING.forEach\<close>, as a function of the variable
  \<open>updateData\<close> it assigns (\<open>None\<close> is \<open>null\<close>). Reading \<open>data.icon\<close> throws a
  \<open>TypeError\<close> when \<open>data\<close> is \<open>undefined\<close>, which \<open>data === null\<close> lets through.
\<close>

definition section_callback ::
  "env \<Rightarrow> (label \<rightharpoonup> item list) \<Rightarrow> label \<Rightarrow> badge_data option \<Rightarrow> badge_data option completion"
where
  "section_callback e categories attention updateData =
     (if updateData \<noteq> None then Returned updateData
      else case categories attention of
             None \<Rightarrow> Returned updateData
           | Some items \<Rightarrow>
               (case BADGE_DATA e attention of
                  NullEntry \<Rightarrow> Returned updateData
                | NoEntry \<Rightarrow> Threw (Error ''TypeError'' ''data is undefined'')
                | Entry data \<Rightarrow>
                    let count = length items
                    in Returned (Some \<lparr>badge_icon = Some (template_icon data),
                                       badge_text = Some (decimal count),
                                       badge_title = Some (formatTitle data count),
                                       badge_color = Some (template_color data)\<rparr>)))"

text \<open>\<open>forEach\<close>: the callback on every label in turn; an exception ends the loop.\<close>

fun forEach :: "env \<Rightarrow> (label \<rightharpoonup> item list) \<Rightarrow> label list \<Rightarrow> badge_data option
    \<Rightarrow> badge_data option completion" where
  "forEach e categories [] updateData = Returned updateData"
| "forEach e categories (attention # rest) updateData =
     (case section_callback e categories attention updateData of
        Threw error \<Rightarrow> Threw error
      | Returned updateData' \<Rightarrow> forEach e categories rest updateData')"

text \<open>The value of the variable \<open>updateData\<close> when \<open>update\<close> reaches \<open>browser.updateBadge\<close>.\<close>

definition updateData :: "env \<Rightarrow> wrapper \<Rightarrow> badge_data completion" where
  "updateData e wrapper =
     (case errors wrapper of
        (host, error) # others \<Rightarrow>
          Returned \<lparr>badge_icon = Some [(''24'', ''img/ic_assignment_late_black_24dp_1x.png''),
                                      (''48'', ''img/ic_assignment_late_black_24dp_2x.png'')],
                    badge_text = Some ''!'',
                    badge_title = Some (''Error: '' @ message error),
                    badge_color = Some ''red''\<rparr>
      | [] \<Rightarrow>
          (case forEach e (getCategoryMap e (results wrapper)) (SECTION_ORDERING e) None of
             Threw error \<Rightarrow> Threw error
           | Returned None \<Rightarrow> Returned (DEFAULT_BADGE_DATA e)
           | Returned (Some data) \<Rightarrow> Returned data))"

definition update :: "env \<Rightarrow> wrapper \<Rightarrow> state \<Rightarrow> unit completion \<times> state" where
  "update e wrapper s =
     (let s1 = alarms_clear ''auto-refresh'' s;
          s2 = alarms_create ''auto-refresh'' (REFRESH_DELAY_IN_MINUTES e) s1
      in case updateData e wrapper of
           Threw error \<Rightarrow> (Threw error, s2)
         | Returned data \<Rightarrow> (Returned (), updateBadge data s2))"

section \<open>fetchAndUpdate, onAlarm and the event listeners\<close>

definition fetchAndUpdate :: "env \<Rightarrow> host list \<Rightarrow> state \<Rightarrow> wrapper completion \<times> state" where
  "fetchAndUpdate e hosts s =
     (case fetchCls e hosts s of
        (Threw error, s1) \<Rightarrow> (Threw error, s1)
      | (Returned r, s1) \<Rightarrow>
          (case update e r s1 of
             (Threw error, s2) \<Rightarrow> (Threw error, s2)
           | (Returned u, s2) \<Rightarrow>
               (let s3 = s2\<lparr>trace := trace s2 @ [Notify (results r) (errors r)]\<rparr>
                in case notify e (results r) (errors r) of
                     Some error \<Rightarrow> (Threw error, s3)
                   | None \<Rightarrow> (Returned r, s3))))"

text \<open>
  \<open>onAlarm\<close>: \<open>fetchAllowedInstances\<close> of the environment stands for loading the options,
  \<open>gerrit.fetchAllowedInstances\<close> and taking the host of every instance. Whatever is thrown
  inside the \<open>try\<close> is written to the console.
\<close>

definition onAlarm :: "env \<Rightarrow> state \<Rightarrow> state" where
  "onAlarm e s =
     (let catch = (\<lambda>error s'. s'\<lparr>trace := trace s' @ [ConsoleError error]\<rparr>)
      in case fetchAllowedInstances e of
           Inl error \<Rightarrow> catch error s
         | Inr hosts \<Rightarrow>
             if length hosts > 0 then
               (case fetchAndUpdate e hosts s of
                  (Threw error, s1) \<Rightarrow> catch error s1
                | (Returned r, s1) \<Rightarrow> s1)
             else s)"

text \<open>\<open>RequestProxy.getSearchResults\<close>, the operation the popup calls.\<close>

definition getSearchResults :: "env \<Rightarrow> host list \<Rightarrow> state \<Rightarrow> wrapper completion \<times> state" where
  "getSearchResults e hosts s = fetchAndUpdate e hosts s"

text \<open>The listener registered with \<open>chrome.alarms.onAlarm\<close>.\<close>

definition onAlarm_listener :: "env \<Rightarrow> string \<Rightarrow> state \<Rightarrow> state" where
  "onAlarm_listener e name s = (if name = ''auto-refresh'' then onAlarm e s else s)"

text \<open>
  An alarm created with \<open>delayInMinutes\<close> alone fires once: when it fires the browser has
  removed it, and the listener runs.
\<close>

definition alarm_fires :: "env \<Rightarrow> string \<Rightarrow> state \<Rightarrow> state" where
  "alarm_fires e name s = onAlarm_listener e name (s\<lparr>alarms := (alarms s)(name := None)\<rparr>)"

text \<open>The listeners registered with \<open>chrome.runtime.onInstalled\<close> and \<open>onStartup\<close>.\<close>

definition onInstalled_listener :: "env \<Rightarrow> state \<Rightarrow> state" where
  "onInstalled_listener e s =
     onAlarm e (alarms_create ''auto-refresh'' (REFRESH_DELAY_IN_MINUTES e) s)"

definition onStartup_listener :: "env \<Rightarrow> state \<Rightarrow> state" where
  "onStartup_listener e s =
     onAlarm e (case alarms s ''auto-refresh'' of
                  None \<Rightarrow> alarms_create ''auto-refresh'' (REFRESH_DELAY_IN_MINUTES e) s
                | Some alarm \<Rightarrow> s)"

section \<open>newMessageProxy\<close>

text \<open>
  The values that travel through the message listener. A number is an integer from
  \<open>-2^53\<close> to \<open>2^53 - 1\<close> (a word of 54 bits, read as a signed integer; each of them is a
  number of JavaScript and is printed digit by digit), the number \<open>NaN\<close>, an infinity (the
  argument tells whether it is the negative one) or the negative zero; the other numbers,
  with a fraction or of larger magnitude, are outside the model. An object is the list of
  its own enumerable properties in property order, with distinct keys, and has no
  \<open>toString\<close> or \<open>valueOf\<close> of its own; a function carries its source text; an \<open>Error\<close>
  instance has a \<open>name\<close> and a \<open>message\<close>, neither of them enumerable.
\<close>

datatype jsval =
    VUndefined
  | VNull
  | VBool bool
  | VNum "54 word"
  | VNaN
  | VInfinity bool
  | VNegZero
  | VStr string
  | VArray "jsval list"
  | VObject "(string \<times> jsval) list"
  | VFunction string
  | VError string string

text \<open>A JSON text, by its structure.\<close>

datatype json =
    TNull
  | TBool bool
  | TNum "54 word"
  | TStr string
  | TArray "json list"
  | TObject "(string \<times> json) list"

text \<open>
  \<open>JSON.stringify\<close>: \<open>undefined\<close> and functions have no JSON text; as an array element
  they are written \<open>null\<close>, as a property they are left out. \<open>NaN\<close> and the infinities are
  written \<open>null\<close>, the negative zero is written \<open>0\<close>. An \<open>Error\<close> instance has no
  enumerable property and is written \<open>{}\<close>. \<open>None\<close> is the result \<open>undefined\<close>.
\<close>

fun JSON_stringify :: "jsval \<Rightarrow> json option" where
  "JSON_stringify VUndefined = None"
| "JSON_stringify VNull = Some TNull"
| "JSON_stringify (VBool b) = Some (TBool b)"
| "JSON_stringify (VNum n) = Some (TNum n)"
| "JSON_stringify VNaN = Some TNull"
| "JSON_stringify (VInfinity negative) = Some TNull"
| "JSON_stringify VNegZero = Some (TNum 0)"
| "JSON_stringify (VStr s) = Some (TStr s)"
| "JSON_stringify (VArray vs) =
     Some (TArray (map (\<lambda>v. case JSON_stringify v of None \<Rightarrow> TNull | Some t \<Rightarrow> t) vs))"
| "JSON_stringify (VObject kvs) =
     Some (TObject (concat (map (\<lambda>kv. case JSON_stringify (snd kv) of
                                         None \<Rightarrow> []
                                       | Some t \<Rightarrow> [(fst kv, t)]) kvs)))"
| "JSON_stringify (VFunction src) = None"
| "JSON_stringify (VError name msg) = Some (TObject [])"

fun JSON_parse :: "json \<Rightarrow> jsval" where
  "JSON_parse TNull = VNull"
| "JSON_parse (TBool b) = VBool b"
| "JSON_parse (TNum n) = VNum n"
| "JSON_parse (TStr s) = VStr s"
| "JSON_parse (TArray ts) = VArray (map JSON_parse ts)"
| "JSON_parse (TObject kts) = VObject (map (\<lambda>kt. (fst kt, JSON_parse (snd kt))) kts)"

text \<open>
  \<open>JSON.parse(JSON.stringify(value))\<close>: when \<open>JSON.stringify\<close> returns \<open>undefined\<close>,
  \<open>JSON.parse\<close> throws a \<open>SyntaxError\<close>.
\<close>

definition JSON_roundtrip :: "jsval \<Rightarrow> jsval completion" where
  "JSON_roundtrip v =
     (case JSON_stringify v of
        None \<Rightarrow> Threw (Error ''SyntaxError'' ''undefined is not valid JSON'')
      | Some t \<Rightarrow> Returned (JSON_parse t))"

text \<open>\<open>Array.prototype.join\<close> on strings.\<close>

fun join :: "string \<Rightarrow> string list \<Rightarrow> string" where
  "join sep [] = []"
| "join sep [x] = x"
| "join sep (x # y # ys) = x @ sep @ join sep (y # ys)"

text \<open>
  \<open>String(value)\<close>, also the conversion of a value to a property key. Objects without a
  \<open>toString\<close> of their own give \<open>[object Object]\<close>; \<open>Error.prototype.toString\<close> joins name
  and message.
\<close>

fun String :: "jsval \<Rightarrow> string" where
  "String VUndefined = ''undefined''"
| "String VNull = ''null''"
| "String (VBool b) = (if b then ''true'' else ''false'')"
| "String (VNum n) =
     (if sint n < 0 then ''-'' @ decimal (nat (- sint n)) else decimal (nat (sint n)))"
| "String VNaN = ''NaN''"
| "String (VInfinity negative) = (if negative then ''-Infinity'' else ''Infinity'')"
| "String VNegZero = ''0''"
| "String (VStr s) = s"
| "String (VArray vs) =
     join '','' (map (\<lambda>v. if v = VUndefined \<or> v = VNull then [] else String v) vs)"
| "String (VObject kvs) = ''[object Object]''"
| "String (VFunction src) = src"
| "String (VError name msg) =
     (if name = [] then msg else if msg = [] then name else name @ '': '' @ msg)"

text \<open>The promise a handler operation returns: how it is settled, if ever.\<close>

datatype settlement = Resolves jsval | Rejects jsval | Pending

text \<open>
  \<open>handler[key]\<close>: \<open>undefined\<close>; or an operation that returns a promise (``all methods must
  return a promise''); or one of the members every object inherits (\<open>constructor\<close>,
  \<open>toString\<close>, \<open>valueOf\<close>, \<open>hasOwnProperty\<close> and the like), which applied to the arguments of
  a message throw a \<open>TypeError\<close> or return a string, a boolean or an object, none of which has
  a method \<open>then\<close>.
\<close>

datatype member = NoMember | OtherMember | Operation "jsval list \<Rightarrow> settlement"

text \<open>What is passed to \<open>reply\<close>: \<open>{value: ...}\<close> or \<open>{error: ...}\<close>.\<close>

datatype response = Value jsval | ErrorMessage string

text \<open>
  One run of the listener: it throws, or it returns a boolean and \<open>reply\<close> is later called
  at most once.
\<close>

datatype listener_result = ListenerThrew js_error | ListenerReturned bool "response option"

text \<open>
  The listener \<open>newMessageProxy(handler)\<close> applied to a request. Calling \<open>apply\<close> on
  \<open>undefined\<close> throws a \<open>TypeError\<close> out of the listener, and so does calling \<open>then\<close> on what
  an inherited member returns (the message of the error depends on the member and on the
  browser; one text stands for all). The callbacks of \<open>then\<close> run
  after the listener has returned, so \<open>hasResponded\<close> is still false at the \<open>return\<close>.
  When the round trip through JSON throws inside the first callback, \<open>reply\<close> is not called.
\<close>

definition newMessageProxy :: "(string \<Rightarrow> member) \<Rightarrow> jsval list \<Rightarrow> listener_result" where
  "newMessageProxy handler request =
     (let hasResponded = False
      in case handler (String (case request of [] \<Rightarrow> VUndefined | command # args \<Rightarrow> command)) of
           NoMember \<Rightarrow> ListenerThrew (Error ''TypeError'' ''handler[request[0]] is undefined'')
         | OtherMember \<Rightarrow> ListenerThrew (Error ''TypeError'' ''then is not a function'')
         | Operation operation \<Rightarrow>
             ListenerReturned (\<not> hasResponded)
               (case operation (drop 1 request) of
                  Resolves v \<Rightarrow>
                    (case JSON_roundtrip v of
                       Threw error \<Rightarrow> None
                     | Returned canonical \<Rightarrow> Some (Value canonical))
                | Rejects error \<Rightarrow> Some (ErrorMessage (String error))
                | Pending \<Rightarrow> None))"


section \<open>Notions used in the statements\<close>

text \<open>
  The cache entry of a host when it is fresh: \<open>now - timestamp\<close> is below the cache
  duration. \<open>None\<close> when the host has no entry or a stale one.
\<close>

definition fresh_entry :: "env \<Rightarrow> (host \<rightharpoonup> int \<times> cached) \<Rightarrow> host \<Rightarrow> cached option" where
  "fresh_entry e cache host =
     (case cache host of
        None \<Rightarrow> None
      | Some (timestamp, cached) \<Rightarrow>
          if now e - timestamp < REVIEW_CACHE_DURATION_IN_MILLISECONDS e then Some cached
          else None)"

text \<open>
  The lookup of a host hits an inherited property: the cache has no entry of its own and
  the host is the name of such a property. The callback of a host reaches the \<open>try\<close> block:
  the lookup finds neither a fresh entry nor an inherited property.
\<close>

definition hits_prototype :: "(host \<rightharpoonup> int \<times> cached) \<Rightarrow> host \<Rightarrow> bool" where
  "hits_prototype cache host = (cache host = None \<and> Object_prototype host)"

definition reaches_try :: "env \<Rightarrow> state \<Rightarrow> host \<Rightarrow> bool" where
  "reaches_try e s host =
     (fresh_entry e (fetchCache s) host = None \<and> \<not> hits_prototype (fetchCache s) host)"

text \<open>What a fetch of a host ends in: its reviews, or the error of the request that failed.\<close>

definition fetched :: "env \<Rightarrow> host \<Rightarrow> cached" where
  "fetched e host =
     (case fetchAccount e host of
        Inl error \<Rightarrow> Failed error
      | Inr account \<Rightarrow>
          (case fetchReviews e host account of
             Inl error \<Rightarrow> Failed error
           | Inr reviews \<Rightarrow> Reviews reviews))"

text \<open>What a list of hosts pushes on \<open>results\<close> and on \<open>errors\<close>, given the outcome of each.\<close>

definition pushed_results :: "(host \<Rightarrow> cached option) \<Rightarrow> host list \<Rightarrow> reviews list" where
  "pushed_results f hs = concat (map (\<lambda>h. case f h of Some (Reviews r) \<Rightarrow> [r] | _ \<Rightarrow> []) hs)"

definition pushed_errors :: "(host \<Rightarrow> cached option) \<Rightarrow> host list \<Rightarrow> (host \<times> js_error) list" where
  "pushed_errors f hs = concat (map (\<lambda>h. case f h of Some (Failed x) \<Rightarrow> [(h, x)] | _ \<Rightarrow> []) hs)"

text \<open>The calls of \<open>gerrit.fetchReviews\<close> made for a list of hosts.\<close>

definition review_requests :: "env \<Rightarrow> host list \<Rightarrow> event list" where
  "review_requests e hs =
     concat (map (\<lambda>h. case fetchAccount e h of
                         Inl x \<Rightarrow> []
                       | Inr a \<Rightarrow> [GerritFetchReviews h a]) hs)"

text \<open>The hosts of a call whose callback reaches the \<open>try\<close> block.\<close>

definition stale_hosts :: "env \<Rightarrow> state \<Rightarrow> host list \<Rightarrow> host list" where
  "stale_hosts e s hosts = filter (reaches_try e s) hosts"

text \<open>
  Of a suspended callback: its host; that the account it holds is the one the host
  answers with; the request for reviews it has yet to make.
\<close>

fun host_of :: "suspended \<Rightarrow> host" where
  "host_of (AwaitAccount host) = host"
| "host_of (AwaitReviews host account) = host"

fun holds_account :: "env \<Rightarrow> suspended \<Rightarrow> bool" where
  "holds_account e (AwaitAccount host) = True"
| "holds_account e (AwaitReviews host account) = (fetchAccount e host = Inr account)"

fun requests_left :: "env \<Rightarrow> suspended \<Rightarrow> event list" where
  "requests_left e (AwaitAccount host) = review_requests e [host]"
| "requests_left e (AwaitReviews host account) = []"

text \<open>
  The end of a fetch of a host: the outcome is pushed and cached. The state after the
  fetches of \<open>order\<close> have ended in that order, with the requests \<open>evs\<close> for reviews made on
  the way.
\<close>

definition finish :: "env \<Rightarrow> host \<Rightarrow> tasks \<times> state \<Rightarrow> tasks \<times> state" where
  "finish e host = (\<lambda>(t, s).
     (case fetched e host of
        Failed x \<Rightarrow> t\<lparr>errors := errors t @ [(host, x)]\<rparr>
      | Reviews r \<Rightarrow> t\<lparr>results := results t @ [r]\<rparr>,
      s\<lparr>fetchCache := (fetchCache s)(host \<mapsto> (settledAt e host, fetched e host))\<rparr>))"

definition settled :: "env \<Rightarrow> host list \<Rightarrow> event list \<Rightarrow> tasks \<times> state \<Rightarrow> tasks \<times> state" where
  "settled e order evs = (\<lambda>(t, s).
     (t\<lparr>results := results t @ pushed_results (\<lambda>h. Some (fetched e h)) order,
        errors := errors t @ pushed_errors (\<lambda>h. Some (fetched e h)) order\<rparr>,
      s\<lparr>trace := trace s @ evs,
        fetchCache := override_on (fetchCache s) (\<lambda>h. Some (settledAt e h, fetched e h))
                        (set order)\<rparr>))"

text \<open>The network operations, and those that go to a given host.\<close>

fun is_fetch :: "event \<Rightarrow> bool" where
  "is_fetch (GerritFetchAccount h) = True"
| "is_fetch (GerritFetchReviews h a) = True"
| "is_fetch ev = False"

fun concerns :: "host \<Rightarrow> event \<Rightarrow> bool" where
  "concerns h (GerritFetchAccount h') = (h' = h)"
| "concerns h (GerritFetchReviews h' a) = (h' = h)"
| "concerns h ev = False"

text \<open>
  A configuration and a state to run the model on: three categories in priority order,
  a host \<open>a.example\<close> whose account request fails, and a cache that holds a ten second
  old entry for \<open>c.example\<close> and a hundred second old error for \<open>d.example\<close>.
\<close>

definition example_env :: env where
  "example_env =
     \<lparr>NO_HOST_ALLOWED = ''No host allowed'',
      REVIEW_CACHE_DURATION_IN_MILLISECONDS = 60000,
      REFRESH_DELAY_IN_MINUTES = 5,
      SECTION_ORDERING = [''needsAttention'', ''outgoing'', ''readyToSubmit''],
      BADGE_DATA = (\<lambda>l. if l \<in> set [''needsAttention'', ''outgoing'', ''readyToSubmit'']
                         then Entry \<lparr>template_icon = [(''24'', l)],
                                     template_color = ''blue'',
                                     formatTitle = (\<lambda>n. decimal n @ '' in '' @ l)\<rparr>
                         else NoEntry),
      DEFAULT_BADGE_DATA = \<lparr>badge_icon = Some [(''24'', ''default'')], badge_text = Some [],
                             badge_title = Some ''Gerrit Monitor'', badge_color = None\<rparr>,
      getCategoryMap = (\<lambda>rs. [''needsAttention'' \<mapsto> [''x'', ''y''],
                               ''readyToSubmit'' \<mapsto> [''z'']]),
      fetchAccount = (\<lambda>h. if h = ''a.example'' then Inl (FetchError ''HTTP 500'' False)
                            else Inr ''me''),
      fetchReviews = (\<lambda>h a. Inr [''change at '' @ h]),
      fetchAllowedInstances = Inr [],
      notify = (\<lambda>rs es. None),
      now = 1000000,
      settledAt = (\<lambda>h. 1000250),
      picks = [1]\<rparr>"

definition example_state :: state where
  "example_state =
     \<lparr>fetchCache = [''c.example'' \<mapsto> (990000, Reviews [''change seven'']),
                    ''d.example'' \<mapsto> (900000, Failed (FetchError ''HTTP 503'' False))],
      alarms = Map.empty,
      trace = []\<rparr>"

text \<open>
  A handler with the single operation \<open>getSearchResults\<close>, which resolves to its first
  argument and rejects when it is called without one.
\<close>

definition example_handler :: "string \<Rightarrow> member" where
  "example_handler key =
     (if key = ''getSearchResults''
      then Operation (\<lambda>args. case args of
                                [] \<Rightarrow> Rejects (VError ''Error'' ''boom'')
                              | v # rest \<Rightarrow> Resolves v)
      else if key \<in> set [''constructor'', ''toString'', ''valueOf'', ''hasOwnProperty'']
      then OtherMember
      else NoMember)"


text \<open>The events that arm or cancel an alarm.\<close>

fun is_alarm :: "event \<Rightarrow> bool" where
  "is_alarm (AlarmsClear name) = True"
| "is_alarm (AlarmsCreate name delay) = True"
| "is_alarm ev = False"

text \<open>
  The Status Deriver in the words of the specification: the first label of the priority
  list that is in the category map with non-empty contents and has a descriptor template;
  the descriptor made from that template and the number of items; the default descriptor
  when there is no such label.
\<close>

definition spec_matches :: "env \<Rightarrow> (label \<rightharpoonup> item list) \<Rightarrow> label \<Rightarrow> bool" where
  "spec_matches e categories l =
     ((case categories l of Some (i # rest) \<Rightarrow> True | _ \<Rightarrow> False)
      \<and> (case BADGE_DATA e l of Entry t \<Rightarrow> True | _ \<Rightarrow> False))"

definition spec_descriptor :: "env \<Rightarrow> (label \<rightharpoonup> item list) \<Rightarrow> badge_data" where
  "spec_descriptor e categories =
     (case find (spec_matches e categories) (SECTION_ORDERING e) of
        None \<Rightarrow> DEFAULT_BADGE_DATA e
      | Some l \<Rightarrow>
          (case (categories l, BADGE_DATA e l) of
             (Some items, Entry t) \<Rightarrow>
               \<lparr>badge_icon = Some (template_icon t),
                badge_text = Some (decimal (length items)),
                badge_title = Some (formatTitle t (length items)),
                badge_color = Some (template_color t)\<rparr>
           | _ \<Rightarrow> DEFAULT_BADGE_DATA e))"

text \<open>The calls \<open>browser.updateBadge\<close> makes on \<open>chrome.action\<close>.\<close>

definition badge_events :: "badge_data \<Rightarrow> event list" where
  "badge_events data =
     (case badge_icon data of None \<Rightarrow> [] | Some i \<Rightarrow> [SetIcon i])
     @ (case badge_text data of None \<Rightarrow> [] | Some t \<Rightarrow> [SetBadgeText t])
     @ (case badge_title data of None \<Rightarrow> [] | Some t \<Rightarrow> [SetTitle t])
     @ (case badge_color data of None \<Rightarrow> [] | Some c \<Rightarrow> [SetBadgeBackgroundColor c])"

section \<open>Lemmas on fetchCls\<close>

lemma start_cases:
  "start e h (t, s) =
     (if hits_prototype (fetchCache s) h then (t, s)
      else case fresh_entry e (fetchCache s) h of
        None \<Rightarrow> (t\<lparr>awaiting := awaiting t @ [AwaitAccount h]\<rparr>,
                 s\<lparr>trace := trace s @ [GerritFetchAccount h]\<rparr>)
      | Some (Failed x) \<Rightarrow> (t\<lparr>errors := errors t @ [(h, x)]\<rparr>, s)
      | Some (Reviews r) \<Rightarrow> (t\<lparr>results := results t @ [r]\<rparr>, s))"
  by (simp add: start_def fresh_entry_def hits_prototype_def split: option.splits cached.splits)

lemma hits_prototype_not_fresh:
  "hits_prototype cache h \<Longrightarrow> fresh_entry e cache h = None"
  by (simp add: hits_prototype_def fresh_entry_def)

lemma fold_start:
  "fold (start e) hs (t, s) =
     (t\<lparr>results := results t @ pushed_results (fresh_entry e (fetchCache s)) hs,
        errors := errors t @ pushed_errors (fresh_entry e (fetchCache s)) hs,
        awaiting := awaiting t @ map AwaitAccount (stale_hosts e s hs)\<rparr>,
      s\<lparr>trace := trace s @ map GerritFetchAccount (stale_hosts e s hs)\<rparr>)"
proof (induction hs arbitrary: t s)
  case Nil
  show ?case by (simp add: pushed_results_def pushed_errors_def stale_hosts_def)
next
  case (Cons h hs)
  have same: "reaches_try e (s\<lparr>trace := tr\<rparr>) = reaches_try e s" for tr
    by (rule ext) (simp add: reaches_try_def)
  show ?case
  proof (cases "hits_prototype (fetchCache s) h")
    case True
    then show ?thesis
      using hits_prototype_not_fresh [OF True, of e]
      by (simp add: start_cases Cons.IH pushed_results_def pushed_errors_def stale_hosts_def
          reaches_try_def)
  next
    case False
    then show ?thesis
      by (cases "fresh_entry e (fetchCache s) h")
         (auto simp: start_cases Cons.IH same pushed_results_def pushed_errors_def stale_hosts_def
            reaches_try_def split: cached.splits)
  qed
qed

lemma resume_account:
  "resume e (AwaitAccount h) (t, s) =
     (case fetchAccount e h of
        Inl x \<Rightarrow> (None, finish e h (t, s))
      | Inr a \<Rightarrow> (Some (AwaitReviews h a), (t, s\<lparr>trace := trace s @ [GerritFetchReviews h a]\<rparr>)))"
  by (simp add: catch_block_def finish_def fetched_def split: sum.splits)

lemma resume_reviews:
  "fetchAccount e h = Inr a \<Longrightarrow> resume e (AwaitReviews h a) (t, s) = (None, finish e h (t, s))"
  by (simp add: catch_block_def finish_def fetched_def split: sum.splits)

lemma settled_finish: "settled e order evs (finish e h ts) = settled e (h # order) evs ts"
  by (cases ts; cases "fetched e h")
     (simp_all add: settled_def finish_def pushed_results_def pushed_errors_def
        override_on_insert' fun_upd_def)

lemma settled_request:
  "settled e order evs (t, s\<lparr>trace := trace s @ [ev]\<rparr>) = settled e order (ev # evs) (t, s)"
  by (simp add: settled_def)

lemma settled_Nil: "settled e [] [] ts = ts"
  by (cases ts) (simp add: settled_def pushed_results_def pushed_errors_def)

lemma allSettled_step:
  assumes "ps \<noteq> []" and "i = (case ks of [] \<Rightarrow> 0 | k # rest \<Rightarrow> k mod length ps)"
  shows "allSettled e ks ps ts =
     allSettled e (tl ks)
       (case fst (resume e (ps ! i) ts) of
          None \<Rightarrow> take i ps @ drop (Suc i) ps
        | Some q \<Rightarrow> ps[i := q])
       (snd (resume e (ps ! i) ts))"
  using assms by (cases ps) (auto simp: allSettled.simps Let_def)

lemma sum_steps_nth:
  "i < length ps \<Longrightarrow>
     sum_list (map steps_left ps)
       = steps_left (ps ! i) + sum_list (map steps_left (take i ps @ drop (Suc i) ps))"
  using arg_cong [OF id_take_nth_drop, of i ps "\<lambda>xs. sum_list (map steps_left xs)"]
  by simp

lemma mset_hosts_nth:
  "i < length ps \<Longrightarrow>
     mset (map host_of ps)
       = add_mset (host_of (ps ! i)) (mset (map host_of (take i ps @ drop (Suc i) ps)))"
  using arg_cong [OF id_take_nth_drop, of i ps "\<lambda>xs. mset (map host_of xs)"]
  by simp

lemma mset_requests_nth:
  "i < length ps \<Longrightarrow>
     mset (concat (map (requests_left e) ps))
       = mset (requests_left e (ps ! i))
         + mset (concat (map (requests_left e) (take i ps @ drop (Suc i) ps)))"
  using arg_cong [OF id_take_nth_drop, of i ps "\<lambda>xs. mset (concat (map (requests_left e) xs))"]
  by simp

lemma holds_account_others:
  "list_all (holds_account e) ps \<Longrightarrow> list_all (holds_account e) (take i ps @ drop (Suc i) ps)"
  by (auto simp: list_all_iff dest: in_set_takeD in_set_dropD)

lemma allSettled_closed:
  assumes "list_all (holds_account e) ps"
  shows "\<exists>order evs. mset order = mset (map host_of ps)
           \<and> mset evs = mset (concat (map (requests_left e) ps))
           \<and> allSettled e ks ps (t, s) = settled e order evs (t, s)"
  using assms
proof (induction "sum_list (map steps_left ps)" arbitrary: ks ps t s rule: less_induct)
  case less
  show ?case
  proof (cases "ps = []")
    case True
    then show ?thesis
      using settled_Nil [of e "(t, s)"]
      by (intro exI [of _ "[]"]) (simp add: allSettled.simps)
  next
    case False
    define i where "i = (case ks of [] \<Rightarrow> 0 | k # rest \<Rightarrow> k mod length ps)"
    define others where "others = take i ps @ drop (Suc i) ps"
    have i: "i < length ps"
      using False by (simp add: i_def split: list.splits)
    have step: "allSettled e ks ps (t, s) =
        allSettled e (tl ks)
          (case fst (resume e (ps ! i) (t, s)) of None \<Rightarrow> others | Some q \<Rightarrow> ps[i := q])
          (snd (resume e (ps ! i) (t, s)))"
      unfolding others_def by (rule allSettled_step [OF False i_def])
    have sum: "sum_list (map steps_left ps)
        = steps_left (ps ! i) + sum_list (map steps_left others)"
      unfolding others_def by (rule sum_steps_nth [OF i])
    have hosts: "mset (map host_of ps) = add_mset (host_of (ps ! i)) (mset (map host_of others))"
      unfolding others_def by (rule mset_hosts_nth [OF i])
    have requests: "mset (concat (map (requests_left e) ps))
        = mset (requests_left e (ps ! i)) + mset (concat (map (requests_left e) others))"
      unfolding others_def by (rule mset_requests_nth [OF i])
    have wf_others: "list_all (holds_account e) others"
      unfolding others_def by (rule holds_account_others [OF less.prems])
    have wf_i: "holds_account e (ps ! i)"
      using less.prems i by (simp add: list_all_length)
    have ended: ?thesis
      if r: "resume e (ps ! i) (t, s) = (None, finish e (host_of (ps ! i)) (t, s))"
        and none: "requests_left e (ps ! i) = []"
    proof -
      obtain t1 s1 where ts1: "finish e (host_of (ps ! i)) (t, s) = (t1, s1)"
        by (cases "finish e (host_of (ps ! i)) (t, s)")
      have "sum_list (map steps_left others) < sum_list (map steps_left ps)"
        using sum by (cases "ps ! i") simp_all
      from less.hyps [OF this wf_others, of "tl ks" t1 s1]
      obtain order evs where o: "mset order = mset (map host_of others)"
        and ev: "mset evs = mset (concat (map (requests_left e) others))"
        and eq: "allSettled e (tl ks) others (t1, s1) = settled e order evs (t1, s1)"
        by blast
      have "allSettled e ks ps (t, s) = settled e (host_of (ps ! i) # order) evs (t, s)"
        using eq by (simp add: step r ts1 [symmetric] settled_finish)
      moreover have "mset (host_of (ps ! i) # order) = mset (map host_of ps)"
        using o hosts by simp
      moreover have "mset evs = mset (concat (map (requests_left e) ps))"
        using ev requests none by simp
      ultimately show ?thesis by blast
    qed
    show ?thesis
    proof (cases "ps ! i")
      case (AwaitAccount h)
      show ?thesis
      proof (cases "fetchAccount e h")
        case (Inl x)
        show ?thesis
          using AwaitAccount Inl
          by (intro ended) (simp_all add: resume_account review_requests_def del: resume.simps)
      next
        case (Inr a)
        let ?ps = "ps[i := AwaitReviews h a]"
        have r: "resume e (ps ! i) (t, s)
            = (Some (AwaitReviews h a), (t, s\<lparr>trace := trace s @ [GerritFetchReviews h a]\<rparr>))"
          using AwaitAccount Inr by (simp add: resume_account del: resume.simps)
        have ps': "?ps = take i ps @ AwaitReviews h a # drop (Suc i) ps"
          using i by (rule upd_conv_take_nth_drop)
        have "sum_list (map steps_left ?ps) = 1 + sum_list (map steps_left others)"
          by (simp add: ps' others_def)
        then have smaller: "sum_list (map steps_left ?ps) < sum_list (map steps_left ps)"
          using sum AwaitAccount by simp
        have wf: "list_all (holds_account e) ?ps"
          using wf_others Inr by (simp add: ps' others_def)
        from less.hyps [OF smaller wf, of "tl ks" t "s\<lparr>trace := trace s @ [GerritFetchReviews h a]\<rparr>"]
        obtain order evs where o: "mset order = mset (map host_of ?ps)"
          and ev: "mset evs = mset (concat (map (requests_left e) ?ps))"
          and eq: "allSettled e (tl ks) ?ps (t, s\<lparr>trace := trace s @ [GerritFetchReviews h a]\<rparr>)
                    = settled e order evs (t, s\<lparr>trace := trace s @ [GerritFetchReviews h a]\<rparr>)"
          by blast
        have "allSettled e ks ps (t, s) = settled e order (GerritFetchReviews h a # evs) (t, s)"
          using eq by (simp add: step r settled_request)
        moreover have "mset order = mset (map host_of ps)"
          using o hosts AwaitAccount by (simp add: ps' others_def)
        moreover have "mset (GerritFetchReviews h a # evs)
            = mset (concat (map (requests_left e) ps))"
          using ev requests AwaitAccount Inr by (simp add: ps' others_def review_requests_def)
        ultimately show ?thesis by blast
      qed
    next
      case (AwaitReviews h a)
      then have "fetchAccount e h = Inr a"
        using wf_i by simp
      then show ?thesis
        using AwaitReviews by (intro ended) (simp_all add: resume_reviews del: resume.simps)
    qed
  qed
qed

lemma requests_left_account:
  "concat (map (requests_left e) (map AwaitAccount hs)) = review_requests e hs"
  by (induction hs) (simp_all add: review_requests_def)

lemma fetchCls_closed:
  assumes "hosts \<noteq> []"
  shows "\<exists>order evs. mset order = mset (stale_hosts e s hosts)
      \<and> mset evs = mset (review_requests e (stale_hosts e s hosts))
      \<and> fetchCls e hosts s =
          (Returned \<lparr>results = pushed_results (fresh_entry e (fetchCache s)) hosts
                                @ pushed_results (\<lambda>h. Some (fetched e h)) order,
                     errors = pushed_errors (fresh_entry e (fetchCache s)) hosts
                                @ pushed_errors (\<lambda>h. Some (fetched e h)) order\<rparr>,
           s\<lparr>trace := trace s @ map GerritFetchAccount (stale_hosts e s hosts) @ evs,
             fetchCache := override_on (fetchCache s) (\<lambda>h. Some (settledAt e h, fetched e h))
                             (set (stale_hosts e s hosts))\<rparr>)"
proof -
  let ?stale = "stale_hosts e s hosts"
  let ?t1 = "\<lparr>results = pushed_results (fresh_entry e (fetchCache s)) hosts,
              errors = pushed_errors (fresh_entry e (fetchCache s)) hosts,
              awaiting = map AwaitAccount ?stale\<rparr>"
  let ?s1 = "s\<lparr>trace := trace s @ map GerritFetchAccount ?stale\<rparr>"
  have started: "fold (start e) hosts (\<lparr>results = [], errors = [], awaiting = []\<rparr>, s) = (?t1, ?s1)"
    by (simp add: fold_start)
  have "list_all (holds_account e) (map AwaitAccount ?stale)"
    by (simp add: list_all_iff)
  from allSettled_closed [OF this, of "picks e" ?t1 ?s1]
  obtain order evs where o: "mset order = mset (map host_of (map AwaitAccount ?stale))"
    and ev: "mset evs = mset (concat (map (requests_left e) (map AwaitAccount ?stale)))"
    and eq: "allSettled e (picks e) (map AwaitAccount ?stale) (?t1, ?s1) = settled e order evs (?t1, ?s1)"
    by blast
  have o': "mset order = mset ?stale"
    using o by (simp add: comp_def)
  then have "set order = set ?stale"
    by (rule mset_eq_setD)
  then have "fetchCls e hosts s =
          (Returned \<lparr>results = pushed_results (fresh_entry e (fetchCache s)) hosts
                                @ pushed_results (\<lambda>h. Some (fetched e h)) order,
                     errors = pushed_errors (fresh_entry e (fetchCache s)) hosts
                                @ pushed_errors (\<lambda>h. Some (fetched e h)) order\<rparr>,
           s\<lparr>trace := trace s @ map GerritFetchAccount ?stale @ evs,
             fetchCache := override_on (fetchCache s) (\<lambda>h. Some (settledAt e h, fetched e h))
                             (set ?stale)\<rparr>)"
    using assms by (simp add: fetchCls_def started eq settled_def)
  with o' ev show ?thesis
    unfolding requests_left_account by blast
qed



lemma concerns_account_requests:
  "filter (concerns h) (map GerritFetchAccount hs) = map GerritFetchAccount (filter (\<lambda>h'. h' = h) hs)"
  by (induction hs) simp_all


lemma review_requests_Nil: "review_requests e [] = []"
  by (simp add: review_requests_def)




lemma filter_eq_absent: "x \<notin> set xs \<Longrightarrow> filter (\<lambda>y. y = x) xs = []"
  by (induction xs) auto

lemma pushed_results_member:
  "h \<in> set hs \<Longrightarrow> f h = Some (Reviews r) \<Longrightarrow> r \<in> set (pushed_results f hs)"
  by (induction hs) (auto simp: pushed_results_def)

lemma pushed_errors_member:
  "h \<in> set hs \<Longrightarrow> f h = Some (Failed x) \<Longrightarrow> (h, x) \<in> set (pushed_errors f hs)"
  by (induction hs) (auto simp: pushed_errors_def)

lemma length_pushed:
  "length (pushed_results f hs) + length (pushed_errors f hs) = length (filter (\<lambda>h. f h \<noteq> None) hs)"
  by (induction hs) (auto simp: pushed_results_def pushed_errors_def split: option.splits cached.splits)

lemma two_orders: "mset xs = mset [a, b] \<Longrightarrow> xs = [a, b] \<or> xs = [b, a]"
proof -
  assume eq: "mset xs = mset [a, b]"
  then have "length xs = 2"
    using mset_eq_length [OF eq] by simp
  then obtain x y where xs: "xs = [x, y]"
    by (metis (no_types) Suc_length_conv length_0_conv numeral_2_eq_2)
  with eq show ?thesis
    by (auto simp: add_eq_conv_ex)
qed

lemma length_fetched:
  "length (pushed_results (\<lambda>h. Some (fetched e h)) hs)
     + length (pushed_errors (\<lambda>h. Some (fetched e h)) hs) = length hs"
  by (simp add: length_pushed)



lemma length_started:
  "length (filter (\<lambda>h. fresh_entry e (fetchCache s) h \<noteq> None) hosts)
     + length (stale_hosts e s hosts)
   = length (filter (\<lambda>h. \<not> hits_prototype (fetchCache s) h) hosts)"
  by (induction hosts)
     (auto simp: stale_hosts_def reaches_try_def dest: hits_prototype_not_fresh [of _ _ e])

lemma concerns_review_request:
  "ev \<in> set (review_requests e hs) \<Longrightarrow> concerns h ev \<Longrightarrow> h \<in> set hs"
  by (induction hs) (auto simp: review_requests_def split: sum.splits)

text \<open>
  A host that is the name of an inherited property and has no entry is neither fetched,
  cached nor reported, and never gets an entry.
\<close>

lemma fetchCls_inherited_property:
  assumes "Object_prototype h" and "fetchCache s h = None"
  shows "fetchCls e [h] s = (Returned \<lparr>results = [], errors = []\<rparr>, s)"
proof -
  have hit: "hits_prototype (fetchCache s) h"
    using assms by (simp add: hits_prototype_def)
  then have stale: "stale_hosts e s [h] = []"
    by (simp add: stale_hosts_def reaches_try_def)
  have fresh: "fresh_entry e (fetchCache s) h = None"
    using hit by (rule hits_prototype_not_fresh)
  obtain order evs where "mset order = mset (stale_hosts e s [h])"
    and "mset evs = mset (review_requests e (stale_hosts e s [h]))"
    and eq: "fetchCls e [h] s =
          (Returned \<lparr>results = pushed_results (fresh_entry e (fetchCache s)) [h]
                                @ pushed_results (\<lambda>h. Some (fetched e h)) order,
                     errors = pushed_errors (fresh_entry e (fetchCache s)) [h]
                                @ pushed_errors (\<lambda>h. Some (fetched e h)) order\<rparr>,
           s\<lparr>trace := trace s @ map GerritFetchAccount (stale_hosts e s [h]) @ evs,
             fetchCache := override_on (fetchCache s) (\<lambda>h. Some (settledAt e h, fetched e h))
                             (set (stale_hosts e s [h]))\<rparr>)"
    using fetchCls_closed [of "[h]" e s] by blast
  then have "order = []" and "evs = []"
    by (simp_all add: stale review_requests_Nil)
  with eq show ?thesis
    by (simp add: stale fresh pushed_results_def pushed_errors_def)
qed

lemma fetchCls_keeps_inherited_names:
  assumes "Object_prototype h" and "fetchCache s h = None"
  shows "fetchCache (snd (fetchCls e hosts s)) h = None"
proof (cases "hosts = []")
  case True
  then show ?thesis
    using assms(2) by (simp add: fetchCls_def)
next
  case False
  have "h \<notin> set (stale_hosts e s hosts)"
    using assms by (simp add: stale_hosts_def reaches_try_def hits_prototype_def)
  then show ?thesis
    using fetchCls_closed [OF False, of e s] assms(2) by auto
qed

section \<open>Lemmas on update, fetchAndUpdate and the JSON round trip\<close>

lemma forEach_Some: "forEach e categories ls (Some d) = Returned (Some d)"
  by (induction ls) (simp_all add: section_callback_def)

lemma forEach_first:
  assumes "\<forall>l items. categories l = Some items \<longrightarrow> items \<noteq> []"
    and "\<forall>l \<in> set ls. BADGE_DATA e l \<noteq> NoEntry"
  shows "forEach e categories ls None =
     Returned (case find (spec_matches e categories) ls of
                 None \<Rightarrow> None
               | Some l \<Rightarrow>
                   (case (categories l, BADGE_DATA e l) of
                      (Some items, Entry t) \<Rightarrow>
                        Some \<lparr>badge_icon = Some (template_icon t),
                              badge_text = Some (decimal (length items)),
                              badge_title = Some (formatTitle t (length items)),
                              badge_color = Some (template_color t)\<rparr>
                    | _ \<Rightarrow> None))"
  using assms(2)
proof (induction ls)
  case Nil
  show ?case by simp
next
  case (Cons l ls)
  show ?case
  proof (cases "categories l")
    case None
    with Cons show ?thesis
      by (simp add: section_callback_def spec_matches_def)
  next
    case (Some items)
    with assms(1) obtain i rest where items: "items = i # rest"
      by (cases items) auto
    from Cons.prems have "BADGE_DATA e l \<noteq> NoEntry" by simp
    with Cons Some items show ?thesis
      by (cases "BADGE_DATA e l")
         (simp_all add: section_callback_def spec_matches_def forEach_Some)
  qed
qed

lemma is_fetch_account_requests: "list_all is_fetch (map GerritFetchAccount hs)"
  by (induction hs) simp_all

lemma is_fetch_review_requests: "list_all is_fetch (review_requests e hs)"
  by (induction hs) (simp_all add: review_requests_def split: sum.splits)

lemma fetchCls_returns:
  assumes "hosts \<noteq> []"
  shows "\<exists>w s1 net. fetchCls e hosts s = (Returned w, s1) \<and> alarms s1 = alarms s
           \<and> trace s1 = trace s @ net \<and> list_all is_fetch net"
proof -
  obtain order evs where ev: "mset evs = mset (review_requests e (stale_hosts e s hosts))"
    and eq: "fetchCls e hosts s =
          (Returned \<lparr>results = pushed_results (fresh_entry e (fetchCache s)) hosts
                                @ pushed_results (\<lambda>h. Some (fetched e h)) order,
                     errors = pushed_errors (fresh_entry e (fetchCache s)) hosts
                                @ pushed_errors (\<lambda>h. Some (fetched e h)) order\<rparr>,
           s\<lparr>trace := trace s @ map GerritFetchAccount (stale_hosts e s hosts) @ evs,
             fetchCache := override_on (fetchCache s) (\<lambda>h. Some (settledAt e h, fetched e h))
                             (set (stale_hosts e s hosts))\<rparr>)"
    using fetchCls_closed [OF assms, of e s] by blast
  have "set evs = set (review_requests e (stale_hosts e s hosts))"
    using ev by (rule mset_eq_setD)
  then have "list_all is_fetch evs"
    using is_fetch_review_requests [of e "stale_hosts e s hosts"] by (simp add: list_all_iff)
  then show ?thesis
    unfolding eq by (simp add: is_fetch_account_requests)
qed

lemma updateBadge_events: "updateBadge d s = s\<lparr>trace := trace s @ badge_events d\<rparr>"
  by (simp add: updateBadge_def badge_events_def)

lemma badge_events_quiet: "list_all (\<lambda>ev. \<not> is_fetch ev \<and> \<not> is_alarm ev) (badge_events d)"
  by (simp add: badge_events_def split: option.splits)

lemma updateBadge_effect:
  "\<exists>badge. updateBadge d s = s\<lparr>trace := trace s @ badge\<rparr>
           \<and> list_all (\<lambda>ev. \<not> is_fetch ev \<and> \<not> is_alarm ev) badge"
  using updateBadge_events badge_events_quiet by blast

lemma update_effect:
  "\<exists>badge. alarms (snd (update e w s)) = (alarms s)(''auto-refresh'' \<mapsto> REFRESH_DELAY_IN_MINUTES e)
      \<and> trace (snd (update e w s)) =
          trace s @ [AlarmsClear ''auto-refresh'',
                     AlarmsCreate ''auto-refresh'' (REFRESH_DELAY_IN_MINUTES e)] @ badge
      \<and> list_all (\<lambda>ev. \<not> is_fetch ev \<and> \<not> is_alarm ev) badge"
proof (cases "updateData e w")
  case (Threw x)
  then show ?thesis
    by (simp add: update_def alarms_clear_def alarms_create_def)
next
  case (Returned d)
  let ?s2 = "alarms_create ''auto-refresh'' (REFRESH_DELAY_IN_MINUTES e)
               (alarms_clear ''auto-refresh'' s)"
  obtain badge where "updateBadge d ?s2 = ?s2\<lparr>trace := trace ?s2 @ badge\<rparr>"
    and "list_all (\<lambda>ev. \<not> is_fetch ev \<and> \<not> is_alarm ev) badge"
    using updateBadge_effect [of d ?s2] by blast
  with Returned show ?thesis
    by (simp add: update_def alarms_clear_def alarms_create_def)
qed

lemma fetchAndUpdate_effect:
  assumes "hosts \<noteq> []"
  shows "\<exists>net rest.
      alarms (snd (fetchAndUpdate e hosts s))
        = (alarms s)(''auto-refresh'' \<mapsto> REFRESH_DELAY_IN_MINUTES e)
      \<and> trace (snd (fetchAndUpdate e hosts s)) =
          trace s @ net @ [AlarmsClear ''auto-refresh'',
                           AlarmsCreate ''auto-refresh'' (REFRESH_DELAY_IN_MINUTES e)] @ rest
      \<and> list_all is_fetch net
      \<and> list_all (\<lambda>ev. \<not> is_fetch ev \<and> \<not> is_alarm ev) rest"
proof -
  obtain w s1 net where fetch: "fetchCls e hosts s = (Returned w, s1)"
    and s1: "alarms s1 = alarms s" "trace s1 = trace s @ net" and net: "list_all is_fetch net"
    using fetchCls_returns [OF assms] by blast
  obtain badge where
    s2: "alarms (snd (update e w s1)) = (alarms s1)(''auto-refresh'' \<mapsto> REFRESH_DELAY_IN_MINUTES e)"
      "trace (snd (update e w s1)) =
          trace s1 @ [AlarmsClear ''auto-refresh'',
                      AlarmsCreate ''auto-refresh'' (REFRESH_DELAY_IN_MINUTES e)] @ badge"
    and badge: "list_all (\<lambda>ev. \<not> is_fetch ev \<and> \<not> is_alarm ev) badge"
    using update_effect [of e w s1] by blast
  obtain c s2 where upd: "update e w s1 = (c, s2)" by (cases "update e w s1")
  show ?thesis
  proof (cases c)
    case (Threw x)
    with fetch upd s1 s2 net badge show ?thesis
      by (intro exI [of _ net] exI [of _ badge]) (simp add: fetchAndUpdate_def)
  next
    case (Returned u)
    have "list_all (\<lambda>ev. \<not> is_fetch ev \<and> \<not> is_alarm ev)
            (badge @ [Notify (results w) (errors w)])"
      using badge by simp
    with Returned fetch upd s1 s2 net show ?thesis
      by (intro exI [of _ net] exI [of _ "badge @ [Notify (results w) (errors w)]"])
         (cases "notify e (results w) (errors w)"; simp add: fetchAndUpdate_def Let_def)
  qed
qed

lemma fetchAndUpdate_exact:
  assumes "fetchCls e hosts s = (Returned w, s1)"
  shows "fetchAndUpdate e hosts s =
     (case updateData e w of
        Threw x \<Rightarrow>
          (Threw x,
           s1\<lparr>alarms := (alarms s1)(''auto-refresh'' \<mapsto> REFRESH_DELAY_IN_MINUTES e),
              trace := trace s1 @ [AlarmsClear ''auto-refresh'',
                                   AlarmsCreate ''auto-refresh'' (REFRESH_DELAY_IN_MINUTES e)]\<rparr>)
      | Returned d \<Rightarrow>
          (case notify e (results w) (errors w) of Some x \<Rightarrow> Threw x | None \<Rightarrow> Returned w,
           s1\<lparr>alarms := (alarms s1)(''auto-refresh'' \<mapsto> REFRESH_DELAY_IN_MINUTES e),
              trace := trace s1 @ [AlarmsClear ''auto-refresh'',
                                   AlarmsCreate ''auto-refresh'' (REFRESH_DELAY_IN_MINUTES e)]
                         @ badge_events d @ [Notify (results w) (errors w)]\<rparr>))"
  using assms
  by (simp add: fetchAndUpdate_def update_def updateBadge_events alarms_clear_def
      alarms_create_def Let_def split: completion.splits option.splits)





section \<open>The claims on fetchCls\<close>

text \<open>
  C1. A call with at least one host returns an outcome, whatever the hosts answer: every
  host whose lookup does not hit an inherited property contributes one entry to \<open>results\<close>
  or to \<open>errors\<close>, and every host whose callback reaches the \<open>try\<close> block has the outcome
  of its fetch in the cache and in \<open>results\<close> or \<open>errors\<close>, in whatever order the requests
  settle. For two hosts \<open>A\<close> and \<open>B\<close> that are both fetched, \<open>A\<close> failing with \<open>err\<close> and \<open>B\<close>
  delivering \<open>r\<close>, the outcome is \<open>results = [r]\<close> and \<open>errors = [(A, err)]\<close>, and both
  outcomes are cached.
\<close>

theorem fetchCls_partial_failure:
  "(hosts \<noteq> [] \<longrightarrow>
      (\<exists>w s'. fetchCls e hosts s = (Returned w, s')
         \<and> length (results w) + length (errors w)
             = length (filter (\<lambda>h. \<not> hits_prototype (fetchCache s) h) hosts)
         \<and> (\<forall>h \<in> set hosts. reaches_try e s h \<longrightarrow>
               fetchCache s' h = Some (settledAt e h, fetched e h)
               \<and> (case fetched e h of Reviews r \<Rightarrow> r \<in> set (results w)
                                      | Failed x \<Rightarrow> (h, x) \<in> set (errors w)))))
   \<and> (A \<noteq> B \<and> reaches_try e s A \<and> reaches_try e s B
        \<and> fetched e A = Failed err \<and> fetched e B = Reviews r \<longrightarrow>
      (\<exists>s'. fetchCls e [A, B] s = (Returned \<lparr>results = [r], errors = [(A, err)]\<rparr>, s')
         \<and> fetchCache s' A = Some (settledAt e A, Failed err)
         \<and> fetchCache s' B = Some (settledAt e B, Reviews r)))"
proof (intro conjI impI)
  assume hosts: "hosts \<noteq> []"
  let ?fresh = "fresh_entry e (fetchCache s)"
  let ?stale = "stale_hosts e s hosts"
  obtain order evs where o: "mset order = mset ?stale"
    and eq: "fetchCls e hosts s =
          (Returned \<lparr>results = pushed_results ?fresh hosts
                                @ pushed_results (\<lambda>h. Some (fetched e h)) order,
                     errors = pushed_errors ?fresh hosts
                                @ pushed_errors (\<lambda>h. Some (fetched e h)) order\<rparr>,
           s\<lparr>trace := trace s @ map GerritFetchAccount ?stale @ evs,
             fetchCache := override_on (fetchCache s) (\<lambda>h. Some (settledAt e h, fetched e h))
                             (set ?stale)\<rparr>)"
    using fetchCls_closed [OF hosts, of e s] by blast
  have order: "set order = set ?stale" "length order = length ?stale"
    using o by (rule mset_eq_setD, rule mset_eq_length)
  have count: "length (pushed_results ?fresh hosts) + length (pushed_errors ?fresh hosts)
      + (length (pushed_results (\<lambda>h. Some (fetched e h)) order)
         + length (pushed_errors (\<lambda>h. Some (fetched e h)) order))
      = length (filter (\<lambda>h. \<not> hits_prototype (fetchCache s) h) hosts)"
    using length_started [of e s hosts] length_fetched [of e order]
    by (simp add: length_pushed order(2))
  have member: "h \<in> set order" if "h \<in> set hosts" "reaches_try e s h" for h
    using that by (simp add: order(1) stale_hosts_def)
  have each_result: "r \<in> set (pushed_results (\<lambda>h. Some (fetched e h)) order)"
    if "h \<in> set hosts" "reaches_try e s h" "fetched e h = Reviews r" for h r
    using member [OF that(1,2)] that(3) by (simp add: pushed_results_member)
  have each_error: "(h, x) \<in> set (pushed_errors (\<lambda>h. Some (fetched e h)) order)"
    if "h \<in> set hosts" "reaches_try e s h" "fetched e h = Failed x" for h x
    using member [OF that(1,2)] that(3) by (simp add: pushed_errors_member)
  show "\<exists>w s'. fetchCls e hosts s = (Returned w, s')
         \<and> length (results w) + length (errors w)
             = length (filter (\<lambda>h. \<not> hits_prototype (fetchCache s) h) hosts)
         \<and> (\<forall>h \<in> set hosts. reaches_try e s h \<longrightarrow>
               fetchCache s' h = Some (settledAt e h, fetched e h)
               \<and> (case fetched e h of Reviews r \<Rightarrow> r \<in> set (results w)
                                      | Failed x \<Rightarrow> (h, x) \<in> set (errors w)))"
    unfolding eq using count each_result each_error
    by (auto simp: stale_hosts_def split: cached.splits)
next
  assume ab: "A \<noteq> B \<and> reaches_try e s A \<and> reaches_try e s B
      \<and> fetched e A = Failed err \<and> fetched e B = Reviews r"
  then have stale: "stale_hosts e s [A, B] = [A, B]"
    by (simp add: stale_hosts_def)
  have fresh: "fresh_entry e (fetchCache s) A = None" "fresh_entry e (fetchCache s) B = None"
    using ab by (simp_all add: reaches_try_def)
  obtain order evs where o: "mset order = mset [A, B]"
    and eq: "fetchCls e [A, B] s =
          (Returned \<lparr>results = pushed_results (fresh_entry e (fetchCache s)) [A, B]
                                @ pushed_results (\<lambda>h. Some (fetched e h)) order,
                     errors = pushed_errors (fresh_entry e (fetchCache s)) [A, B]
                                @ pushed_errors (\<lambda>h. Some (fetched e h)) order\<rparr>,
           s\<lparr>trace := trace s @ map GerritFetchAccount [A, B] @ evs,
             fetchCache := override_on (fetchCache s) (\<lambda>h. Some (settledAt e h, fetched e h))
                             (set [A, B])\<rparr>)"
    using fetchCls_closed [of "[A, B]" e s] by (auto simp: stale)
  from o have "order = [A, B] \<or> order = [B, A]"
    by (rule two_orders)
  then show "\<exists>s'. fetchCls e [A, B] s = (Returned \<lparr>results = [r], errors = [(A, err)]\<rparr>, s')
            \<and> fetchCache s' A = Some (settledAt e A, Failed err)
            \<and> fetchCache s' B = Some (settledAt e B, Reviews r)"
    unfolding eq using ab fresh
    by (auto simp: pushed_results_def pushed_errors_def)
qed

theorem fetchCls_partial_failure_witness:
  "(\<exists>w s'. fetchCls example_env [''a.example'', ''constructor'', ''c.example''] example_state
              = (Returned w, s')
         \<and> length (results w) + length (errors w) = 2
         \<and> fetchCache s' ''a.example'' = Some (1000250, Failed (FetchError ''HTTP 500'' False))
         \<and> (''a.example'', FetchError ''HTTP 500'' False) \<in> set (errors w))
   \<and> (\<exists>s'. fetchCls example_env [''a.example'', ''b.example''] example_state
            = (Returned \<lparr>results = [[''change at b.example'']],
                         errors = [(''a.example'', FetchError ''HTTP 500'' False)]\<rparr>, s')
         \<and> fetchCache s' ''a.example'' = Some (1000250, Failed (FetchError ''HTTP 500'' False))
         \<and> fetchCache s' ''b.example'' = Some (1000250, Reviews [''change at b.example'']))"
proof -
  have a: "reaches_try example_env example_state ''a.example''"
    and b: "reaches_try example_env example_state ''b.example''"
    by (simp_all add: reaches_try_def fresh_entry_def hits_prototype_def Object_prototype_def
        example_state_def)
  have fa: "fetched example_env ''a.example'' = Failed (FetchError ''HTTP 500'' False)"
    and fb: "fetched example_env ''b.example'' = Reviews [''change at b.example'']"
    by (simp_all add: fetched_def example_env_def)
  have at: "settledAt example_env h = 1000250" for h
    by (simp add: example_env_def)
  have counted: "length (filter (\<lambda>h. \<not> hits_prototype (fetchCache example_state) h)
      [''a.example'', ''constructor'', ''c.example'']) = 2"
    by (simp add: hits_prototype_def Object_prototype_def example_state_def)
  note both = fetchCls_partial_failure [of "[''a.example'', ''constructor'', ''c.example'']"
        example_env example_state "''a.example''" "''b.example''"
        "FetchError ''HTTP 500'' False" "[''change at b.example'']"]
  have hosts: "[''a.example'', ''constructor'', ''c.example''] \<noteq> []" by simp
  obtain w s' where run: "fetchCls example_env [''a.example'', ''constructor'', ''c.example'']
        example_state = (Returned w, s')"
    and len: "length (results w) + length (errors w)
        = length (filter (\<lambda>h. \<not> hits_prototype (fetchCache example_state) h)
            [''a.example'', ''constructor'', ''c.example''])"
    and each: "\<forall>h \<in> set [''a.example'', ''constructor'', ''c.example''].
        reaches_try example_env example_state h \<longrightarrow>
          fetchCache s' h = Some (settledAt example_env h, fetched example_env h)
          \<and> (case fetched example_env h of
                Reviews r \<Rightarrow> r \<in> set (results w)
              | Failed x \<Rightarrow> (h, x) \<in> set (errors w))"
    using both [THEN conjunct1, THEN mp, OF hosts] by blast
  have "fetchCache s' ''a.example'' = Some (1000250, Failed (FetchError ''HTTP 500'' False))"
    and "(''a.example'', FetchError ''HTTP 500'' False) \<in> set (errors w)"
    using each [THEN bspec, of "''a.example''"] a by (simp_all add: fa at)
  with run len have general: "\<exists>w s'.
      fetchCls example_env [''a.example'', ''constructor'', ''c.example''] example_state
        = (Returned w, s')
      \<and> length (results w) + length (errors w) = 2
      \<and> fetchCache s' ''a.example'' = Some (1000250, Failed (FetchError ''HTTP 500'' False))
      \<and> (''a.example'', FetchError ''HTTP 500'' False) \<in> set (errors w)"
    unfolding counted by blast
  have "''a.example'' \<noteq> ''b.example''" by simp
  with both [THEN conjunct2, THEN mp] a b fa fb
  have "\<exists>s'. fetchCls example_env [''a.example'', ''b.example''] example_state
            = (Returned \<lparr>results = [[''change at b.example'']],
                         errors = [(''a.example'', FetchError ''HTTP 500'' False)]\<rparr>, s')
         \<and> fetchCache s' ''a.example'' = Some (1000250, Failed (FetchError ''HTTP 500'' False))
         \<and> fetchCache s' ''b.example'' = Some (1000250, Reviews [''change at b.example''])"
    by (simp add: at)
  with general show ?thesis by blast
qed

text \<open>
  C2. A host whose cache entry is younger than the cache duration is not fetched: the
  call returns, the cached reviews are in \<open>results\<close> (a cached error, with the host, in
  \<open>errors\<close>), the entry stays as it was, and no network operation of the call goes to that
  host. Nothing but the age of the entry is asked for.
\<close>

theorem fetchCls_reuses_fresh_entry:
  assumes "h \<in> set hosts"
    and "fetchCache s h = Some (recordedAt, entry)"
    and "now e - recordedAt < REVIEW_CACHE_DURATION_IN_MILLISECONDS e"
  shows "\<exists>w s' evs. fetchCls e hosts s = (Returned w, s')
           \<and> (case entry of Reviews r \<Rightarrow> r \<in> set (results w)
                            | Failed x \<Rightarrow> (h, x) \<in> set (errors w))
           \<and> fetchCache s' h = Some (recordedAt, entry)
           \<and> trace s' = trace s @ evs \<and> filter (concerns h) evs = []"
proof -
  let ?stale = "stale_hosts e s hosts"
  have hosts: "hosts \<noteq> []" using assms(1) by auto
  have fresh: "fresh_entry e (fetchCache s) h = Some entry"
    using assms(2,3) by (simp add: fresh_entry_def)
  then have stale: "h \<notin> set ?stale"
    by (simp add: stale_hosts_def reaches_try_def)
  obtain order evs where o: "mset order = mset ?stale"
    and ev: "mset evs = mset (review_requests e ?stale)"
    and eq: "fetchCls e hosts s =
          (Returned \<lparr>results = pushed_results (fresh_entry e (fetchCache s)) hosts
                                @ pushed_results (\<lambda>h. Some (fetched e h)) order,
                     errors = pushed_errors (fresh_entry e (fetchCache s)) hosts
                                @ pushed_errors (\<lambda>h. Some (fetched e h)) order\<rparr>,
           s\<lparr>trace := trace s @ map GerritFetchAccount ?stale @ evs,
             fetchCache := override_on (fetchCache s) (\<lambda>h. Some (settledAt e h, fetched e h))
                             (set ?stale)\<rparr>)"
    using fetchCls_closed [OF hosts, of e s] by blast
  have contributes: "case entry of
        Reviews r \<Rightarrow> r \<in> set (pushed_results (fresh_entry e (fetchCache s)) hosts)
      | Failed x \<Rightarrow> (h, x) \<in> set (pushed_errors (fresh_entry e (fetchCache s)) hosts)"
    using assms(1) fresh
    by (cases entry) (simp_all add: pushed_results_member pushed_errors_member)
  have "set evs = set (review_requests e ?stale)"
    using ev by (rule mset_eq_setD)
  then have "filter (concerns h) evs = []"
    using stale by (auto simp: filter_empty_conv dest: concerns_review_request)
  then have quiet: "filter (concerns h) (map GerritFetchAccount ?stale @ evs) = []"
    using stale by (simp add: concerns_account_requests filter_eq_absent)
  show ?thesis
    unfolding eq
    using contributes quiet stale assms(2)
    by (cases entry) auto
qed

theorem fetchCls_reuses_fresh_entry_witness:
  "\<exists>w s' evs. fetchCls example_env [''b.example'', ''c.example''] example_state = (Returned w, s')
      \<and> [''change seven''] \<in> set (results w)
      \<and> fetchCache s' ''c.example'' = Some (990000, Reviews [''change seven''])
      \<and> trace s' = trace example_state @ evs \<and> filter (concerns ''c.example'') evs = []"
proof -
  have member: "''c.example'' \<in> set [''b.example'', ''c.example'']" by simp
  have entry: "fetchCache example_state ''c.example'' = Some (990000, Reviews [''change seven''])"
    by (simp add: example_state_def)
  have age: "now example_env - 990000 < REVIEW_CACHE_DURATION_IN_MILLISECONDS example_env"
    by (simp add: example_env_def)
  show ?thesis
    using fetchCls_reuses_fresh_entry [OF member entry age] by simp
qed



text \<open>
  C6. On an empty host list \<open>fetchCls\<close> throws the error with the message
  \<open>config.NO_HOST_ALLOWED\<close> and leaves the state as it was: no request has been made and
  the cache is untouched.
\<close>

theorem fetchCls_no_hosts:
  "fetchCls e [] s = (Threw (Error ''Error'' (NO_HOST_ALLOWED e)), s)"
  by (simp add: fetchCls_def)

section \<open>The claims on update\<close>

text \<open>
  C4. When \<open>errors\<close> is not empty, whatever \<open>results\<close> holds, the badge data is the error
  descriptor: the text \<open>!\<close>, the colour red, the late-assignment icon, and the title
  \<open>Error: \<close> followed by the message of the first entry of \<open>errors\<close>. Neither \<open>results\<close>
  nor the tables of categories enter: the descriptor is the same for any other \<open>results\<close>
  and any other configuration. \<open>update\<close> sends exactly this descriptor to the badge.
\<close>

theorem updateData_error_precedence:
  assumes "errors w = (host, error) # others"
  shows "updateData e w =
           Returned \<lparr>badge_icon = Some [(''24'', ''img/ic_assignment_late_black_24dp_1x.png''),
                                       (''48'', ''img/ic_assignment_late_black_24dp_2x.png'')],
                     badge_text = Some ''!'',
                     badge_title = Some (''Error: '' @ message error),
                     badge_color = Some ''red''\<rparr>
       \<and> updateData e' (w\<lparr>results := r\<rparr>) = updateData e w
       \<and> trace (snd (update e w s)) =
           trace s @ [AlarmsClear ''auto-refresh'',
                      AlarmsCreate ''auto-refresh'' (REFRESH_DELAY_IN_MINUTES e),
                      SetIcon [(''24'', ''img/ic_assignment_late_black_24dp_1x.png''),
                               (''48'', ''img/ic_assignment_late_black_24dp_2x.png'')],
                      SetBadgeText ''!'',
                      SetTitle (''Error: '' @ message error),
                      SetBadgeBackgroundColor ''red'']"
  using assms
  by (simp add: updateData_def update_def updateBadge_def alarms_clear_def alarms_create_def)

theorem updateData_error_precedence_witness:
  "updateData example_env
     \<lparr>results = [[''change at b.example'']],
      errors = [(''a.example'', FetchError ''HTTP 500'' False), (''d.example'', Error ''TypeError'' ''x'')]\<rparr>
   = Returned \<lparr>badge_icon = Some [(''24'', ''img/ic_assignment_late_black_24dp_1x.png''),
                                 (''48'', ''img/ic_assignment_late_black_24dp_2x.png'')],
               badge_text = Some ''!'',
               badge_title = Some ''Error: HTTP 500'',
               badge_color = Some ''red''\<rparr>"
proof -
  have "errors \<lparr>results = [[''change at b.example'']],
      errors = [(''a.example'', FetchError ''HTTP 500'' False), (''d.example'', Error ''TypeError'' ''x'')]\<rparr>
    = (''a.example'', FetchError ''HTTP 500'' False) # [(''d.example'', Error ''TypeError'' ''x'')]"
    by simp
  from updateData_error_precedence [OF this, of example_env] show ?thesis
    by simp
qed

text \<open>
  C5. When \<open>errors\<close> is empty, the badge data is the one the specification describes: the
  descriptor of the first label of \<open>SECTION_ORDERING\<close> that is in the category map with
  non-empty contents and has a template (text the number of items, title by
  \<open>formatTitle\<close>, icon and colour of the template), and the default descriptor when no
  label qualifies; in each case exactly one descriptor, which \<open>update\<close> hands to
  \<open>browser.updateBadge\<close> once. Two properties of the
  imported tables are assumed: the category map has no key with an empty list, and every
  label of \<open>SECTION_ORDERING\<close> is a key of \<open>BADGE_DATA\<close>. In the example configuration, with
  priority \<open>needsAttention, outgoing, readyToSubmit\<close> and the map
  \<open>{needsAttention: [x, y], readyToSubmit: [z]}\<close>, the descriptor is the one of
  \<open>needsAttention\<close> with count 2.
\<close>

theorem updateData_first_category:
  assumes "errors w = []"
    and "\<forall>l items. getCategoryMap e (results w) l = Some items \<longrightarrow> items \<noteq> []"
    and "\<forall>l \<in> set (SECTION_ORDERING e). BADGE_DATA e l \<noteq> NoEntry"
  shows "updateData e w = Returned (spec_descriptor e (getCategoryMap e (results w)))
       \<and> update e w s =
           (Returned (),
            updateBadge (spec_descriptor e (getCategoryMap e (results w)))
              (alarms_create ''auto-refresh'' (REFRESH_DELAY_IN_MINUTES e)
                 (alarms_clear ''auto-refresh'' s)))"
proof -
  have "updateData e w = Returned (spec_descriptor e (getCategoryMap e (results w)))"
    using assms(1)
    by (simp add: updateData_def spec_descriptor_def forEach_first [OF assms(2,3)]
        split: option.splits)
       (auto simp: spec_matches_def dest!: find_Some_iff [THEN iffD1]
        split: option.splits list.splits badge_entry.splits)
  then show ?thesis
    by (simp add: update_def)
qed

theorem updateData_first_category_witness:
  "updateData example_env \<lparr>results = [[''change at b.example'']], errors = []\<rparr>
     = Returned \<lparr>badge_icon = Some [(''24'', ''needsAttention'')],
                 badge_text = Some ''2'',
                 badge_title = Some ''2 in needsAttention'',
                 badge_color = Some ''blue''\<rparr>"
proof -
  let ?w = "\<lparr>results = [[''change at b.example'']], errors = []\<rparr>"
  have none: "errors ?w = []" by simp
  have filled: "\<forall>l items. getCategoryMap example_env (results ?w) l = Some items \<longrightarrow> items \<noteq> []"
    by (simp add: example_env_def)
  have table: "\<forall>l \<in> set (SECTION_ORDERING example_env). BADGE_DATA example_env l \<noteq> NoEntry"
    by (simp add: example_env_def)
  have "spec_descriptor example_env (getCategoryMap example_env (results ?w))
     = \<lparr>badge_icon = Some [(''24'', ''needsAttention'')],
        badge_text = Some ''2'',
        badge_title = Some ''2 in needsAttention'',
        badge_color = Some ''blue''\<rparr>"
    by (simp add: spec_descriptor_def spec_matches_def example_env_def decimal.simps digit_def)
  with updateData_first_category [OF none filled table, THEN conjunct1] show ?thesis
    by simp
qed

section \<open>The claims on the alarm\<close>

text \<open>
  C7, as the code has it. A call of \<open>getSearchResults\<close> with at least one host first runs
  \<open>fetchCls\<close> to its end: the cache is the one \<open>fetchCls\<close> leaves, and the trace is the one
  \<open>fetchCls\<close> leaves, which adds requests only, followed by the clearing and the creation
  of the alarm \<open>auto-refresh\<close> with the fixed delay, then by the calls that put the derived
  descriptor on the badge and by the notification (the last two are missing when deriving
  the descriptor throws). The call returns what \<open>fetchCls\<close> returned unless the descriptor
  or the notification fails. After the call the alarm \<open>auto-refresh\<close> is armed and no other
  alarm has been touched, so a worker that had at most this alarm has exactly this one;
  the same holds after a second call. A call with no host throws before it reaches the
  alarm and leaves the state as it was.
\<close>

theorem getSearchResults_fetches_then_rearms:
  assumes "hosts \<noteq> []"
  shows "(\<exists>w s1 net.
            fetchCls e hosts s = (Returned w, s1)
          \<and> trace s1 = trace s @ net \<and> list_all is_fetch net
          \<and> fetchCache (snd (getSearchResults e hosts s)) = fetchCache s1
          \<and> trace (snd (getSearchResults e hosts s)) =
              trace s1 @ [AlarmsClear ''auto-refresh'',
                          AlarmsCreate ''auto-refresh'' (REFRESH_DELAY_IN_MINUTES e)]
                @ (case updateData e w of
                     Threw x \<Rightarrow> []
                   | Returned d \<Rightarrow> badge_events d @ [Notify (results w) (errors w)])
          \<and> fst (getSearchResults e hosts s) =
              (case updateData e w of
                 Threw x \<Rightarrow> Threw x
               | Returned d \<Rightarrow>
                   (case notify e (results w) (errors w) of
                      Some x \<Rightarrow> Threw x
                    | None \<Rightarrow> Returned w)))
       \<and> alarms (snd (getSearchResults e hosts s))
           = (alarms s)(''auto-refresh'' \<mapsto> REFRESH_DELAY_IN_MINUTES e)
       \<and> (dom (alarms s) \<subseteq> {''auto-refresh''} \<longrightarrow>
            dom (alarms (snd (getSearchResults e hosts s))) = {''auto-refresh''})
       \<and> alarms (snd (getSearchResults e' hosts (snd (getSearchResults e hosts s))))
           = (alarms s)(''auto-refresh'' \<mapsto> REFRESH_DELAY_IN_MINUTES e')
       \<and> getSearchResults e [] s = (Threw (Error ''Error'' (NO_HOST_ALLOWED e)), s)"
proof -
  have first: "alarms (snd (getSearchResults e hosts s))
           = (alarms s)(''auto-refresh'' \<mapsto> REFRESH_DELAY_IN_MINUTES e)" for e s
    using fetchAndUpdate_effect [OF assms, of e s] by (auto simp: getSearchResults_def)
  obtain w s1 net where run: "fetchCls e hosts s = (Returned w, s1)"
    and net: "trace s1 = trace s @ net" "list_all is_fetch net"
    using fetchCls_returns [OF assms, of e s] by blast
  have "fetchCache (snd (getSearchResults e hosts s)) = fetchCache s1"
    and "trace (snd (getSearchResults e hosts s)) =
              trace s1 @ [AlarmsClear ''auto-refresh'',
                          AlarmsCreate ''auto-refresh'' (REFRESH_DELAY_IN_MINUTES e)]
                @ (case updateData e w of
                     Threw x \<Rightarrow> []
                   | Returned d \<Rightarrow> badge_events d @ [Notify (results w) (errors w)])"
    and "fst (getSearchResults e hosts s) =
              (case updateData e w of
                 Threw x \<Rightarrow> Threw x
               | Returned d \<Rightarrow>
                   (case notify e (results w) (errors w) of
                      Some x \<Rightarrow> Threw x
                    | None \<Rightarrow> Returned w))"
    by (simp_all add: getSearchResults_def fetchAndUpdate_exact [OF run] split: completion.splits)
  with run net have order: "\<exists>w s1 net.
            fetchCls e hosts s = (Returned w, s1)
          \<and> trace s1 = trace s @ net \<and> list_all is_fetch net
          \<and> fetchCache (snd (getSearchResults e hosts s)) = fetchCache s1
          \<and> trace (snd (getSearchResults e hosts s)) =
              trace s1 @ [AlarmsClear ''auto-refresh'',
                          AlarmsCreate ''auto-refresh'' (REFRESH_DELAY_IN_MINUTES e)]
                @ (case updateData e w of
                     Threw x \<Rightarrow> []
                   | Returned d \<Rightarrow> badge_events d @ [Notify (results w) (errors w)])
          \<and> fst (getSearchResults e hosts s) =
              (case updateData e w of
                 Threw x \<Rightarrow> Threw x
               | Returned d \<Rightarrow>
                   (case notify e (results w) (errors w) of
                      Some x \<Rightarrow> Threw x
                    | None \<Rightarrow> Returned w))"
    by blast
  have none: "getSearchResults e [] s = (Threw (Error ''Error'' (NO_HOST_ALLOWED e)), s)"
    by (simp add: getSearchResults_def fetchAndUpdate_def fetchCls_def)
  show ?thesis
    using order none by (auto simp: first)
qed

theorem getSearchResults_fetches_then_rearms_witness:
  "(\<exists>w s1. fetchCls example_env [''b.example''] example_state = (Returned w, s1)
      \<and> trace (snd (getSearchResults example_env [''b.example''] example_state)) =
          trace s1 @ [AlarmsClear ''auto-refresh'', AlarmsCreate ''auto-refresh'' 5]
            @ (case updateData example_env w of
                 Threw x \<Rightarrow> []
               | Returned d \<Rightarrow> badge_events d @ [Notify (results w) (errors w)]))
   \<and> dom (alarms (snd (getSearchResults example_env [''b.example''] example_state)))
       = {''auto-refresh''}"
proof -
  have hosts: "[''b.example''] \<noteq> []" by simp
  have unarmed: "dom (alarms example_state) \<subseteq> {''auto-refresh''}"
    by (simp add: example_state_def)
  have delay: "REFRESH_DELAY_IN_MINUTES example_env = 5"
    by (simp add: example_env_def)
  note rearm = getSearchResults_fetches_then_rearms [OF hosts, of example_env example_state]
  have "\<exists>w s1. fetchCls example_env [''b.example''] example_state = (Returned w, s1)
      \<and> trace (snd (getSearchResults example_env [''b.example''] example_state)) =
          trace s1 @ [AlarmsClear ''auto-refresh'', AlarmsCreate ''auto-refresh'' 5]
            @ (case updateData example_env w of
                 Threw x \<Rightarrow> []
               | Returned d \<Rightarrow> badge_events d @ [Notify (results w) (errors w)])"
    using rearm [THEN conjunct1] unfolding delay by blast
  moreover have "dom (alarms (snd (getSearchResults example_env [''b.example''] example_state)))
       = {''auto-refresh''}"
    using rearm [THEN conjunct2, THEN conjunct2, THEN conjunct1] unarmed by blast
  ultimately show ?thesis by blast
qed

text \<open>
  C7 as stated fails: in the example run the two requests to \<open>b.example\<close> come before the
  alarm is cleared and created, and a call with no host leaves the worker without alarm.
\<close>

theorem getSearchResults_rearm_order_counterexample:
  "trace (snd (getSearchResults example_env [''b.example''] example_state))
     = [GerritFetchAccount ''b.example'',
        GerritFetchReviews ''b.example'' ''me'',
        AlarmsClear ''auto-refresh'',
        AlarmsCreate ''auto-refresh'' 5,
        SetIcon [(''24'', ''needsAttention'')],
        SetBadgeText ''2'',
        SetTitle ''2 in needsAttention'',
        SetBadgeBackgroundColor ''blue'',
        Notify [[''change at b.example'']] []]
   \<and> alarms (snd (getSearchResults example_env [] example_state)) ''auto-refresh'' = None"
  by (simp add: getSearchResults_def fetchAndUpdate_def fetchCls_def start_def catch_block_def
      allSettled.simps Object_prototype_def
      update_def updateData_def section_callback_def updateBadge_def alarms_clear_def
      alarms_create_def example_env_def example_state_def decimal.simps digit_def Let_def)

text \<open>
  C10. When the alarm \<open>auto-refresh\<close> fires and the list of allowed instances is empty,
  nothing happens beyond the alarm being gone: no request, no error, nothing written to the
  console, no alarm created. The alarm is armed again by the start-up listener, by the
  listener for the installation, and by a call of \<open>getSearchResults\<close> with at least one host.
\<close>

theorem alarm_fires_without_hosts:
  assumes "fetchAllowedInstances e = Inr []"
  shows "alarm_fires e ''auto-refresh'' s = s\<lparr>alarms := (alarms s)(''auto-refresh'' := None)\<rparr>
       \<and> alarms (onStartup_listener e (alarm_fires e ''auto-refresh'' s)) ''auto-refresh''
           = Some (REFRESH_DELAY_IN_MINUTES e)
       \<and> alarms (onInstalled_listener e (alarm_fires e ''auto-refresh'' s)) ''auto-refresh''
           = Some (REFRESH_DELAY_IN_MINUTES e)
       \<and> (hosts \<noteq> [] \<longrightarrow>
            alarms (snd (getSearchResults e hosts (alarm_fires e ''auto-refresh'' s))) ''auto-refresh''
              = Some (REFRESH_DELAY_IN_MINUTES e))"
proof -
  have fired: "alarm_fires e ''auto-refresh'' s = s\<lparr>alarms := (alarms s)(''auto-refresh'' := None)\<rparr>"
    using assms by (simp add: alarm_fires_def onAlarm_listener_def onAlarm_def)
  have restart: "alarms (onStartup_listener e (alarm_fires e ''auto-refresh'' s)) ''auto-refresh''
           = Some (REFRESH_DELAY_IN_MINUTES e)"
    using assms by (simp add: fired onStartup_listener_def onAlarm_def alarms_create_def)
  have installed: "alarms (onInstalled_listener e (alarm_fires e ''auto-refresh'' s)) ''auto-refresh''
           = Some (REFRESH_DELAY_IN_MINUTES e)"
    using assms by (simp add: fired onInstalled_listener_def onAlarm_def alarms_create_def)
  have demand: "alarms (snd (getSearchResults e hosts (alarm_fires e ''auto-refresh'' s))) ''auto-refresh''
              = Some (REFRESH_DELAY_IN_MINUTES e)" if "hosts \<noteq> []"
    using fetchAndUpdate_effect [OF that, of e "alarm_fires e ''auto-refresh'' s"]
    by (auto simp: getSearchResults_def)
  show ?thesis
    using fired restart installed demand by simp
qed

theorem alarm_fires_without_hosts_witness:
  "trace (alarm_fires example_env ''auto-refresh'' (example_state\<lparr>alarms := [''auto-refresh'' \<mapsto> 5]\<rparr>))
     = []
   \<and> alarms (alarm_fires example_env ''auto-refresh''
        (example_state\<lparr>alarms := [''auto-refresh'' \<mapsto> 5]\<rparr>)) ''auto-refresh'' = None
   \<and> alarms (onStartup_listener example_env
        (alarm_fires example_env ''auto-refresh'' (example_state\<lparr>alarms := [''auto-refresh'' \<mapsto> 5]\<rparr>)))
        ''auto-refresh'' = Some 5
   \<and> alarms (snd (getSearchResults example_env [''c.example'']
        (alarm_fires example_env ''auto-refresh'' (example_state\<lparr>alarms := [''auto-refresh'' \<mapsto> 5]\<rparr>))))
        ''auto-refresh'' = Some 5"
proof -
  let ?s = "example_state\<lparr>alarms := [''auto-refresh'' \<mapsto> 5]\<rparr>"
  have none: "fetchAllowedInstances example_env = Inr []"
    by (simp add: example_env_def)
  have hosts: "[''c.example''] \<noteq> []" by simp
  have delay: "REFRESH_DELAY_IN_MINUTES example_env = 5"
    by (simp add: example_env_def)
  note fired = alarm_fires_without_hosts [OF none, of ?s "[''c.example'']"]
  have "alarm_fires example_env ''auto-refresh'' ?s
      = ?s\<lparr>alarms := (alarms ?s)(''auto-refresh'' := None)\<rparr>"
    using fired by (rule conjunct1)
  then have "trace (alarm_fires example_env ''auto-refresh'' ?s) = []"
    and "alarms (alarm_fires example_env ''auto-refresh'' ?s) ''auto-refresh'' = None"
    by (simp_all add: example_state_def)
  moreover have "alarms (onStartup_listener example_env (alarm_fires example_env ''auto-refresh'' ?s))
        ''auto-refresh'' = Some 5"
    using fired [THEN conjunct2, THEN conjunct1] by (simp only: delay)
  moreover have "alarms (snd (getSearchResults example_env [''c.example'']
        (alarm_fires example_env ''auto-refresh'' ?s))) ''auto-refresh'' = Some 5"
    using fired [THEN conjunct2, THEN conjunct2, THEN conjunct2, THEN mp, OF hosts]
    by (simp only: delay)
  ultimately show ?thesis by (simp only: simp_thms)
qed

section \<open>The claims on newMessageProxy\<close>

text \<open>
  C8, as the code has it. When the handler has no member of the requested name, or only
  an inherited one, the listener throws a \<open>TypeError\<close>, \<open>reply\<close> is never called and no
  response reaches the sender. When the member is an operation whose promise is rejected,
  the sender receives \<open>{error: String(error)}\<close>.
\<close>

theorem newMessageProxy_unknown_command:
  "(handler (String command) = NoMember \<longrightarrow>
      newMessageProxy handler (command # args)
        = ListenerThrew (Error ''TypeError'' ''handler[request[0]] is undefined''))
   \<and> (handler (String command) = OtherMember \<longrightarrow>
      newMessageProxy handler (command # args)
        = ListenerThrew (Error ''TypeError'' ''then is not a function''))
   \<and> (handler (String command) = Operation operation \<and> operation args = Rejects error \<longrightarrow>
      newMessageProxy handler (command # args)
        = ListenerReturned True (Some (ErrorMessage (String error))))"
  by (simp add: newMessageProxy_def)

theorem newMessageProxy_unknown_command_witness:
  "newMessageProxy example_handler [VStr ''refresh'']
     = ListenerThrew (Error ''TypeError'' ''handler[request[0]] is undefined'')
   \<and> newMessageProxy example_handler [VStr ''toString'']
     = ListenerThrew (Error ''TypeError'' ''then is not a function'')
   \<and> newMessageProxy example_handler [VStr ''getSearchResults'']
     = ListenerReturned True (Some (ErrorMessage ''Error: boom''))"
proof -
  let ?op = "\<lambda>args. case args of [] \<Rightarrow> Rejects (VError ''Error'' ''boom'') | v # rest \<Rightarrow> Resolves v"
  have absent: "example_handler (String (VStr ''refresh'')) = NoMember"
    by (simp add: example_handler_def)
  have inherited: "example_handler (String (VStr ''toString'')) = OtherMember"
    by (simp add: example_handler_def)
  have present: "example_handler (String (VStr ''getSearchResults'')) = Operation ?op
      \<and> ?op [] = Rejects (VError ''Error'' ''boom'')"
    by (simp add: example_handler_def)
  show ?thesis
    using newMessageProxy_unknown_command [of example_handler "VStr ''refresh''" "[]"]
      newMessageProxy_unknown_command [of example_handler "VStr ''toString''" "[]"]
      newMessageProxy_unknown_command [of example_handler "VStr ''getSearchResults''" "[]" ?op
        "VError ''Error'' ''boom''"]
      absent inherited present
    by simp
qed

text \<open>
  C8 as stated fails: for the command \<open>frobnicate\<close>, which the example handler does not
  have, the listener throws and sends no \<open>{error: ...}\<close> response.
\<close>

theorem newMessageProxy_unknown_command_counterexample:
  "newMessageProxy example_handler [VStr ''frobnicate'', VNum 1]
     = ListenerThrew (Error ''TypeError'' ''handler[request[0]] is undefined'')"
  by (simp add: newMessageProxy_def example_handler_def)




end
